theory Spec2Isabelle
  imports Complex_Main
begin

section \<open>Text primitives\<close>

text \<open>
  Two models of a Python \<^verbatim>\<open>str\<close> are used. The job-tag pattern and the document formatter
  work on Unicode text: a \<open>ustr\<close> is the list of the code points of the string, one element per
  Python character, and \<^verbatim>\<open>len\<close> is the length of that list. The sheet and router models write
  cells, channel ids and message texts as \<^typ>\<open>string\<close>, the texts whose code points are below
  256; \<open>ustr_of\<close> embeds them into \<open>ustr\<close>. On code points below 256 Python's \<^verbatim>\<open>\d\<close> is
  exactly \<^verbatim>\<open>0\<close>..\<^verbatim>\<open>9\<close> and \<^verbatim>\<open>str.isspace\<close> is the set listed in \<open>isspace\<close>.
\<close>

type_synonym ustr = "nat list"

definition ustr_of :: "string \<Rightarrow> ustr" where
  "ustr_of s = map of_char s"

definition isdigit :: "char \<Rightarrow> bool" where
  "isdigit c = (48 \<le> (of_char c :: nat) \<and> (of_char c :: nat) \<le> 57)"

definition isspace :: "char \<Rightarrow> bool" where
  "isspace c = ((9 \<le> (of_char c :: nat) \<and> (of_char c :: nat) \<le> 13)
     \<or> (28 \<le> (of_char c :: nat) \<and> (of_char c :: nat) \<le> 32)
     \<or> (of_char c :: nat) = 133 \<or> (of_char c :: nat) = 160)"

text \<open>\<^verbatim>\<open>s.strip()\<close>: leading and trailing whitespace removed.\<close>

definition strip :: "string \<Rightarrow> string" where
  "strip s = rev (dropWhile isspace (rev (dropWhile isspace s)))"

section \<open>Job-tag detection: \<^verbatim>\<open>JOB_TAG_RE = re.compile(r"#(\d{5})\?")\<close>\<close>

text \<open>
  For a \<^verbatim>\<open>str\<close> pattern compiled without \<^verbatim>\<open>re.ASCII\<close>, \<^verbatim>\<open>\d\<close> matches the characters of the
  Unicode category Nd (decimal digit). The table lists the ranges of that category in Unicode
  14.0, the version of CPython 3.11; later versions add further ranges above U+0660.
\<close>

definition unicode_decimal_ranges :: "(nat \<times> nat) list" where
  "unicode_decimal_ranges =
    [(48, 57), (1632, 1641), (1776, 1785), (1984, 1993), (2406, 2415), (2534, 2543),
     (2662, 2671), (2790, 2799), (2918, 2927), (3046, 3055), (3174, 3183), (3302, 3311),
     (3430, 3439), (3558, 3567), (3664, 3673), (3792, 3801), (3872, 3881), (4160, 4169),
     (4240, 4249), (6112, 6121), (6160, 6169), (6470, 6479), (6608, 6617), (6784, 6793),
     (6800, 6809), (6992, 7001), (7088, 7097), (7232, 7241), (7248, 7257), (42528, 42537),
     (43216, 43225), (43264, 43273), (43472, 43481), (43504, 43513), (43600, 43609),
     (44016, 44025), (65296, 65305), (66720, 66729), (68912, 68921), (69734, 69743),
     (69872, 69881), (69942, 69951), (70096, 70105), (70384, 70393), (70736, 70745),
     (70864, 70873), (71248, 71257), (71360, 71369), (71472, 71481), (71904, 71913),
     (72016, 72025), (72784, 72793), (73040, 73049), (73120, 73129), (92768, 92777),
     (92864, 92873), (93008, 93017), (120782, 120831), (123200, 123209), (123632, 123641),
     (125264, 125273), (130032, 130041)]"

definition unicode_digit :: "nat \<Rightarrow> bool" where
  "unicode_digit c = list_ex (\<lambda>(lo, hi). lo \<le> c \<and> c \<le> hi) unicode_decimal_ranges"

text \<open>\<^verbatim>\<open>\d{n}\<close>: consume exactly \<open>n\<close> decimal digits; the result is the digits and the rest.\<close>

fun digits_u :: "nat \<Rightarrow> nat list \<Rightarrow> (nat list \<times> nat list) option" where
  "digits_u 0 s = Some ([], s)"
| "digits_u (Suc n) [] = None"
| "digits_u (Suc n) (c # cs) =
     (if unicode_digit c
      then (case digits_u n cs of
              None \<Rightarrow> None
            | Some (ds, r) \<Rightarrow> Some (c # ds, r))
      else None)"

text \<open>The pattern anchored at the start of \<open>s\<close>; the value is group 1. The code points 35 and
  63 are \<^verbatim>\<open>#\<close> and \<^verbatim>\<open>?\<close>.\<close>

definition JOB_TAG_RE_match_u :: "nat list \<Rightarrow> nat list option" where
  "JOB_TAG_RE_match_u s =
     (case s of
        [] \<Rightarrow> None
      | c # rest \<Rightarrow>
          if c = 35
          then (case digits_u 5 rest of
                  None \<Rightarrow> None
                | Some (ds, r) \<Rightarrow>
                    (case r of
                       [] \<Rightarrow> None
                     | q # _ \<Rightarrow> if q = 63 then Some ds else None))
          else None)"

text \<open>\<^verbatim>\<open>JOB_TAG_RE.search(text)\<close> followed by \<^verbatim>\<open>m.group(1)\<close>: the start positions are
  tried from left to right and the first position where the pattern matches wins.\<close>

fun JOB_TAG_RE_search_u :: "nat list \<Rightarrow> nat list option" where
  "JOB_TAG_RE_search_u [] = None"
| "JOB_TAG_RE_search_u (c # cs) =
     (case JOB_TAG_RE_match_u (c # cs) of
        Some g \<Rightarrow> Some g
      | None \<Rightarrow> JOB_TAG_RE_search_u cs)"

text \<open>The specification's wording: the message contains, after the prefix \<open>pre\<close>, a \<^verbatim>\<open>#\<close>,
  then the five decimal digits \<open>ds\<close>, then immediately a \<^verbatim>\<open>?\<close>.\<close>

definition job_tag_at :: "nat list \<Rightarrow> nat list \<Rightarrow> nat list \<Rightarrow> nat list \<Rightarrow> bool" where
  "job_tag_at msg pre ds post =
     (msg = pre @ [35] @ ds @ [63] @ post \<and> length ds = 5 \<and> list_all unicode_digit ds)"

text \<open>The first occurrence: no occurrence starts further left.\<close>

definition first_job_tag :: "nat list \<Rightarrow> nat list \<Rightarrow> bool" where
  "first_job_tag msg ds \<longleftrightarrow>
     (\<exists>pre post. job_tag_at msg pre ds post \<and>
        (\<forall>pre' ds' post'. job_tag_at msg pre' ds' post' \<longrightarrow> length pre \<le> length pre'))"

text \<open>The same pattern on the texts of the router model, whose code points are below 256.\<close>

text \<open>\<^verbatim>\<open>\d{n}\<close>: consume exactly \<open>n\<close> digits; the result is the digits and the rest.\<close>

fun match_digits :: "nat \<Rightarrow> string \<Rightarrow> (string \<times> string) option" where
  "match_digits 0 s = Some ([], s)"
| "match_digits (Suc n) [] = None"
| "match_digits (Suc n) (c # cs) =
     (if isdigit c
      then (case match_digits n cs of
              None \<Rightarrow> None
            | Some (ds, r) \<Rightarrow> Some (c # ds, r))
      else None)"

text \<open>The pattern anchored at the start of \<open>s\<close>; the value is group 1.\<close>

definition JOB_TAG_RE_match :: "string \<Rightarrow> string option" where
  "JOB_TAG_RE_match s =
     (case s of
        [] \<Rightarrow> None
      | c # rest \<Rightarrow>
          if c = CHR ''#''
          then (case match_digits 5 rest of
                  None \<Rightarrow> None
                | Some (ds, r) \<Rightarrow>
                    (case r of
                       [] \<Rightarrow> None
                     | q # _ \<Rightarrow> if q = CHR ''?'' then Some ds else None))
          else None)"

text \<open>\<^verbatim>\<open>JOB_TAG_RE.search(text)\<close> followed by \<^verbatim>\<open>m.group(1)\<close>: the start positions are
  tried from left to right and the first position where the pattern matches wins.\<close>

fun JOB_TAG_RE_search :: "string \<Rightarrow> string option" where
  "JOB_TAG_RE_search [] = None"
| "JOB_TAG_RE_search (c # cs) =
     (case JOB_TAG_RE_match (c # cs) of
        Some g \<Rightarrow> Some g
      | None \<Rightarrow> JOB_TAG_RE_search cs)"

section \<open>Relay memory: \<^verbatim>\<open>class RelayMemory\<close>\<close>

text \<open>
  The value stored under a client timestamp is the tuple
  \<^verbatim>\<open>(job, internal_channel, internal_ts, created_at)\<close>. Clock readings
  (\<^verbatim>\<open>time.time()\<close>) are reals. The object's state is the record below: \<open>rm_map\<close> is the
  dict \<^verbatim>\<open>self.map\<close>, \<open>rm_order\<close> the deque \<^verbatim>\<open>self.order\<close> with its left end first.
  \<open>max_items\<close> is a natural number, as in the only instance the program creates.
\<close>

type_synonym relay_entry = "string \<times> string \<times> string \<times> real"

definition created_at :: "relay_entry \<Rightarrow> real" where
  "created_at e = snd (snd (snd e))"

record RelayMemory =
  max_items :: nat
  ttl :: real
  rm_map :: "string \<rightharpoonup> relay_entry"
  rm_order :: "string list"

text \<open>The first loop of \<^verbatim>\<open>_evict\<close> (``TTL evict''), on the dict and the deque.\<close>

fun ttl_evict ::
  "real \<Rightarrow> real \<Rightarrow> (string \<rightharpoonup> relay_entry) \<Rightarrow> string list
    \<Rightarrow> (string \<rightharpoonup> relay_entry) \<times> string list" where
  "ttl_evict now t m [] = (m, [])"
| "ttl_evict now t m (k # ks) =
     (case m k of
        None \<Rightarrow> ttl_evict now t m ks
      | Some v \<Rightarrow>
          if now - created_at v > t
          then ttl_evict now t (m(k := None)) ks
          else (m, k # ks))"

text \<open>The second loop of \<^verbatim>\<open>_evict\<close> (``Size evict'').\<close>

fun size_evict ::
  "nat \<Rightarrow> (string \<rightharpoonup> relay_entry) \<Rightarrow> string list
    \<Rightarrow> (string \<rightharpoonup> relay_entry) \<times> string list" where
  "size_evict mx m [] = (m, [])"
| "size_evict mx m (k # ks) =
     (if length (k # ks) > mx then size_evict mx (m(k := None)) ks else (m, k # ks))"

text \<open>\<^verbatim>\<open>_evict\<close>; \<open>now\<close> is the clock reading it takes.\<close>

definition RelayMemory_evict :: "RelayMemory \<Rightarrow> real \<Rightarrow> RelayMemory" where
  "RelayMemory_evict rm now =
     (case ttl_evict now (ttl rm) (rm_map rm) (rm_order rm) of
        (m1, o1) \<Rightarrow>
          (case size_evict (max_items rm) m1 o1 of
             (m2, o2) \<Rightarrow> rm\<lparr>rm_map := m2, rm_order := o2\<rparr>))"

text \<open>\<^verbatim>\<open>RelayMemory.save_map\<close>; \<open>t_created\<close> is the clock reading stored in the entry,
  \<open>t_evict\<close> the later reading taken inside \<^verbatim>\<open>_evict\<close>.\<close>

definition RelayMemory_save_map ::
  "RelayMemory \<Rightarrow> string \<Rightarrow> string \<Rightarrow> string \<Rightarrow> string \<Rightarrow> real \<Rightarrow> real \<Rightarrow> RelayMemory" where
  "RelayMemory_save_map rm job internal_channel internal_ts client_ts t_created t_evict =
     RelayMemory_evict
       (rm\<lparr>rm_map := (rm_map rm)(client_ts \<mapsto> (job, internal_channel, internal_ts, t_created)),
           rm_order := rm_order rm @ [client_ts]\<rparr>)
       t_evict"

text \<open>\<^verbatim>\<open>RelayMemory.by_client_thread\<close>: the returned value and the object's state after
  the call.\<close>

definition RelayMemory_by_client_thread ::
  "RelayMemory \<Rightarrow> string \<Rightarrow> (string \<times> string \<times> string) option \<times> RelayMemory" where
  "RelayMemory_by_client_thread rm client_ts =
     (case rm_map rm client_ts of
        None \<Rightarrow> (None, rm)
      | Some (job, internal_channel, internal_ts, created) \<Rightarrow>
          (Some (job, internal_channel, internal_ts), rm))"

text \<open>\<^verbatim>\<open>RELAY_MEM = RelayMemory()\<close> with the default arguments.\<close>

definition RELAY_MEM :: RelayMemory where
  "RELAY_MEM = \<lparr>max_items = 30, ttl = 72 * 3600, rm_map = Map.empty, rm_order = []\<rparr>"

text \<open>A sequence of \<^verbatim>\<open>save_map\<close> calls: each call is
  \<open>(job, internal_channel, internal_ts, client_ts, t_created, t_evict)\<close>.\<close>

type_synonym save_call = "string \<times> string \<times> string \<times> string \<times> real \<times> real"

fun apply_save :: "RelayMemory \<Rightarrow> save_call \<Rightarrow> RelayMemory" where
  "apply_save rm (job, ich, its, cts, tc, tn) = RelayMemory_save_map rm job ich its cts tc tn"

definition run_saves :: "RelayMemory \<Rightarrow> save_call list \<Rightarrow> RelayMemory" where
  "run_saves rm cs = foldl apply_save rm cs"

fun call_key :: "save_call \<Rightarrow> string" where
  "call_key (job, ich, its, cts, tc, tn) = cts"

fun call_readings :: "save_call \<Rightarrow> real list" where
  "call_readings (job, ich, its, cts, tc, tn) = [tc, tn]"

definition clock_readings :: "save_call list \<Rightarrow> real list" where
  "clock_readings cs = concat (map call_readings cs)"


text \<open>What every save keeps true of the cache created by the program.\<close>

definition relay_inv :: "RelayMemory \<Rightarrow> bool" where
  "relay_inv rm = (dom (rm_map rm) \<subseteq> set (rm_order rm) \<and> max_items rm = 30 \<and> ttl rm = 259200)"

text \<open>Calls whose keys are pairwise different, and the state such calls keep: the deque
  has no duplicate, holds exactly the dict's keys, and the creation times along it never
  decrease.\<close>

definition order_created :: "(string \<rightharpoonup> relay_entry) \<Rightarrow> string list \<Rightarrow> real list" where
  "order_created m ks = map (\<lambda>k. created_at (the (m k))) ks"

definition in_sync :: "(string \<rightharpoonup> relay_entry) \<Rightarrow> string list \<Rightarrow> bool" where
  "in_sync m ks = (distinct ks \<and> dom m = set ks \<and> sorted (order_created m ks))"


text \<open>Conditions on a sequence of calls: pairwise different keys; a clock that never runs
  backwards; all clock readings inside one window of the length of the TTL.\<close>

definition fresh_keys :: "save_call list \<Rightarrow> bool" where
  "fresh_keys cs = distinct (map call_key cs)"

definition well_timed :: "save_call list \<Rightarrow> bool" where
  "well_timed cs = sorted (clock_readings cs)"

definition within_window :: "real \<Rightarrow> save_call list \<Rightarrow> bool" where
  "within_window t0 cs = list_all (\<lambda>t. t0 \<le> t \<and> t \<le> t0 + 259200) (clock_readings cs)"

definition run_sync :: "save_call list \<Rightarrow> RelayMemory \<Rightarrow> bool" where
  "run_sync cs rm =
     (in_sync (rm_map rm) (rm_order rm) \<and> set (rm_order rm) \<subseteq> set (map call_key cs)
      \<and> list_all (\<lambda>k. created_at (the (rm_map rm k)) \<in> set (clock_readings cs)) (rm_order rm)
      \<and> relay_inv rm)"


text \<open>A sample run: 31 saves with the keys \<^verbatim>\<open>A\<close>, \<^verbatim>\<open>B\<close>, \<dots>, between second 65 and second 95.\<close>

definition wcalls :: "save_call list" where
  "wcalls = map (\<lambda>i. (''55555'', ''C1'', ''1.0'', [char_of i], real i, real i)) [65 ..< 96]"


section \<open>Exceptions\<close>

text \<open>The exceptions the modelled code can meet. \<open>ServiceError\<close> stands for any exception
  raised by a call to an external service (sheets, chat), with its message.\<close>

datatype py_error =
    NameError string
  | FileNotFoundError string
  | BinasciiError
  | ServiceError string

section \<open>Credential bootstrap: \<^verbatim>\<open>google_utils.py\<close>, lines 10--27\<close>

text \<open>
  The process environment is a map from variable names to values, the file system a map from
  paths to contents. \<^verbatim>\<open>base64.b64decode\<close> is a parameter: \<open>None\<close> is its
  \<^verbatim>\<open>binascii.Error\<close>.
\<close>

type_synonym environ = "string \<rightharpoonup> string"
type_synonym filesystem = "string \<rightharpoonup> string"

text \<open>The module-level statements run at import: the result is the file system afterwards,
  or the exception that aborts the import.\<close>

definition bootstrap_creds ::
  "(string \<Rightarrow> string option) \<Rightarrow> environ \<Rightarrow> filesystem \<Rightarrow> py_error + filesystem" where
  "bootstrap_creds b64decode env fs =
     (case env ''GOOGLE_CREDS_BASE64'' of
        None \<Rightarrow> Inr fs
      | Some base64_creds \<Rightarrow>
          if base64_creds \<noteq> [] \<and> fs ''google_creds.json'' = None
          then (case b64decode base64_creds of
                  None \<Rightarrow> Inl BinasciiError
                | Some blob \<Rightarrow> Inr (fs(''google_creds.json'' \<mapsto> blob)))
          else Inr fs)"

text \<open>\<^verbatim>\<open>get_google_creds\<close>: the credentials are represented by the path they were loaded from
  and the content of that file; a missing file is \<^verbatim>\<open>FileNotFoundError\<close>.\<close>

definition get_google_creds :: "environ \<Rightarrow> filesystem \<Rightarrow> py_error + (string \<times> string)" where
  "get_google_creds env fs =
     (let creds_file = (case env ''GOOGLE_CREDS_FILE'' of
                          None \<Rightarrow> ''google_creds.json''
                        | Some p \<Rightarrow> p)
      in case fs creds_file of
           None \<Rightarrow> Inl (FileNotFoundError creds_file)
         | Some content \<Rightarrow> Inr (creds_file, content))"

section \<open>Job Log lookup: \<^verbatim>\<open>find_job_in_joblog\<close>\<close>

text \<open>A sheet is the list of its rows as the read returns them: each row a list of cells, short
  when trailing cells are empty.\<close>

type_synonym sheet_values = "string list list"

record joblog =
  job_num :: string
  job_name :: string
  monday_item_id :: string
  wl_item_id :: string
  raw_row :: "string list"
  headers :: "string list"

text \<open>\<^verbatim>\<open>{h: i for i, h in enumerate(headers)}\<close>: a later column with the same header
  replaces an earlier one.\<close>

definition header_index :: "string list \<Rightarrow> (string \<rightharpoonup> nat)" where
  "header_index hs = fold (\<lambda>(i, h) d. d(h \<mapsto> i)) (enumerate 0 hs) Map.empty"

text \<open>Python's \<^verbatim>\<open>a or b\<close> on two results of \<^verbatim>\<open>dict.get\<close>: \<^verbatim>\<open>None\<close> and \<^verbatim>\<open>0\<close> are both
  false.\<close>

definition py_or :: "nat option \<Rightarrow> nat option \<Rightarrow> nat option" where
  "py_or a b = (case a of None \<Rightarrow> b | Some i \<Rightarrow> if i = 0 then b else Some i)"

text \<open>\<^verbatim>\<open>r[i].strip() if i is not None and i < len(r) else ""\<close>\<close>

definition cell_or_empty :: "nat option \<Rightarrow> string list \<Rightarrow> string" where
  "cell_or_empty i r =
     (case i of None \<Rightarrow> [] | Some n \<Rightarrow> if n < length r then strip (r ! n) else [])"

text \<open>The loop over \<^verbatim>\<open>rows[1:]\<close>.\<close>

fun scan_joblog ::
  "string list \<Rightarrow> nat option \<Rightarrow> nat option \<Rightarrow> nat option \<Rightarrow> nat option \<Rightarrow> string
    \<Rightarrow> sheet_values \<Rightarrow> joblog option" where
  "scan_joblog hs job_idx name_idx monday_idx wl_idx jn [] = None"
| "scan_joblog hs job_idx name_idx monday_idx wl_idx jn (r # rs) =
     (case job_idx of
        None \<Rightarrow> scan_joblog hs job_idx name_idx monday_idx wl_idx jn rs
      | Some j \<Rightarrow>
          if j \<ge> length r then scan_joblog hs job_idx name_idx monday_idx wl_idx jn rs
          else if strip (r ! j) = jn
          then Some \<lparr>job_num = strip (r ! j),
                     job_name = cell_or_empty name_idx r,
                     monday_item_id = cell_or_empty monday_idx r,
                     wl_item_id = cell_or_empty wl_idx r,
                     raw_row = r,
                     headers = hs\<rparr>
          else scan_joblog hs job_idx name_idx monday_idx wl_idx jn rs)"

text \<open>\<^verbatim>\<open>find_job_in_joblog\<close>, on the rows that \<^verbatim>\<open>read_range\<close> returned.\<close>

definition find_job_in_joblog :: "sheet_values \<Rightarrow> string \<Rightarrow> joblog option" where
  "find_job_in_joblog rows jn =
     (case rows of
        [] \<Rightarrow> None
      | h # data \<Rightarrow>
          (let hs = map strip h;
               idx = header_index hs;
               job_idx = idx ''Job #'';
               name_idx = idx ''Job Name'';
               monday_idx = py_or (idx ''Ewing Board Item ID'') (idx ''Monday ID'');
               wl_idx = idx ''WLIII Item ID''
           in scan_joblog hs job_idx name_idx monday_idx wl_idx jn data))"


section \<open>Question Log: reads, write requests and the sheet service\<close>

text \<open>
  Columns are named by their letters, rows by their 1-based numbers. A write request is what
  the code hands to the sheets client: \<open>ValuesUpdate tab c1 r1 c2 r2 vals\<close> is
  \<^verbatim>\<open>values().update\<close> with the range \<^verbatim>\<open>tab!c1r1:c2r2\<close>, \<open>ValuesAppend rng vals\<close> is
  \<^verbatim>\<open>values().append\<close> with \<^verbatim>\<open>INSERT_ROWS\<close>.
\<close>

datatype sheet_request =
    ValuesUpdate string char nat char nat "string list list"
  | ValuesAppend string "string list list"

datatype log_entry = LogInfo string | LogWarning string | LogError string

definition str_of_error :: "py_error \<Rightarrow> string" where
  "str_of_error e =
     (case e of
        NameError n \<Rightarrow> ''name '' @ [CHR 0x27] @ n @ [CHR 0x27] @ '' is not defined''
      | FileNotFoundError p \<Rightarrow> ''No such file or directory: '' @ p
      | BinasciiError \<Rightarrow> ''Incorrect padding''
      | ServiceError m \<Rightarrow> m)"

text \<open>\<^verbatim>\<open>(row[n].strip() if len(row) > n else "")\<close>\<close>

definition cell_strip :: "string list \<Rightarrow> nat \<Rightarrow> string" where
  "cell_strip row n = (if length row > n then strip (row ! n) else [])"

text \<open>The test of the scan: column A, stripped, is the job and column G, stripped, is empty.\<close>

definition unanswered :: "string \<Rightarrow> string list \<Rightarrow> bool" where
  "unanswered job row = (cell_strip row 0 = job \<and> cell_strip row 6 = [])"

text \<open>\<^verbatim>\<open>for idx in range(len(values) - 1, 0, -1)\<close>: the argument is \<open>idx\<close>, the result the
  1-based row number \<^verbatim>\<open>idx + 1\<close> at the \<^verbatim>\<open>break\<close>, or \<open>None\<close> when the loop runs out.\<close>

fun scan_unanswered :: "sheet_values \<Rightarrow> string \<Rightarrow> nat \<Rightarrow> nat option" where
  "scan_unanswered vals job 0 = None"
| "scan_unanswered vals job (Suc i) =
     (if unanswered job (vals ! Suc i) then Some (Suc i + 1) else scan_unanswered vals job i)"

text \<open>The log lines after the write call: nothing, or the error of the \<^verbatim>\<open>except\<close> branch.\<close>

definition after_write :: "string \<Rightarrow> py_error option \<Rightarrow> log_entry list" where
  "after_write prefix write_error =
     (case write_error of None \<Rightarrow> [] | Some e \<Rightarrow> [LogError (prefix @ str_of_error e)])"

text \<open>\<^verbatim>\<open>_update_sheet_response_for_job\<close>. \<open>read_result\<close> is what the read of
  \<^verbatim>\<open>QuestionsLog!A:K\<close> gave (its rows or an exception), \<open>write_error\<close> the exception of the
  write call if it raised. The result is the write requests issued and the log lines.\<close>

definition update_sheet_response_for_job ::
  "py_error + sheet_values \<Rightarrow> py_error option \<Rightarrow> string \<Rightarrow> string \<Rightarrow> string \<Rightarrow> string \<Rightarrow> string
    \<Rightarrow> sheet_request list \<times> log_entry list" where
  "update_sheet_response_for_job read_result write_error jn resp_date resp_time resp_from resp_body =
     (case read_result of
        Inl e \<Rightarrow> ([], [LogError (''Sheet response update failed: '' @ str_of_error e)])
      | Inr vals \<Rightarrow>
          if vals = [] then ([], [])
          else
            (case scan_unanswered vals jn (length vals - 1) of
               None \<Rightarrow>
                 ([ValuesAppend ''QuestionsLog!A:K''
                     [[jn, [], [], [], [], [], resp_date, resp_time, resp_from, resp_body, []]]],
                  LogWarning (''No unanswered row found for job '' @ jn
                      @ ''; appending a response-only row.'')
                    # after_write ''Sheet response update failed: '' write_error)
             | Some target \<Rightarrow>
                 ([ValuesUpdate ''QuestionsLog'' CHR ''G'' target CHR ''J'' target
                     [[resp_date, resp_time, resp_from, resp_body]]],
                  after_write ''Sheet response update failed: '' write_error)))"

text \<open>\<^verbatim>\<open>_update_client_thread_info\<close>, in the same way; the read is of \<^verbatim>\<open>QuestionsLog!A:O\<close>.\<close>

definition update_client_thread_info ::
  "py_error + sheet_values \<Rightarrow> py_error option \<Rightarrow> string \<Rightarrow> string \<Rightarrow> string
    \<Rightarrow> sheet_request list \<times> log_entry list" where
  "update_client_thread_info read_result write_error jn client_ts client_channel =
     (case read_result of
        Inl e \<Rightarrow> ([], [LogError (''Sheet client thread write failed: '' @ str_of_error e)])
      | Inr vals \<Rightarrow>
          if vals = [] then ([], [])
          else
            (case scan_unanswered vals jn (length vals - 1) of
               None \<Rightarrow>
                 ([], [LogWarning (''No unanswered row found for job '' @ jn
                      @ ''; skipping client thread info write.'')])
             | Some target \<Rightarrow>
                 ([ValuesUpdate ''QuestionsLog'' CHR ''M'' target CHR ''O'' target
                     [[client_ts, client_channel]]],
                  after_write ''Sheet client thread write failed: '' write_error)))"

text \<open>
  The sheet service, as its interface documents it: an update writes the supplied values row by
  row, left to right, starting at the top-left cell of the range, and leaves every other cell
  alone (also cells of the range for which no value was supplied); an append adds the rows
  after the last row. A cell beyond the end of a row is empty.
\<close>

definition col_index :: "char \<Rightarrow> nat" where
  "col_index c = of_char c - 65"

definition cell :: "string list \<Rightarrow> nat \<Rightarrow> string" where
  "cell row j = (if j < length row then row ! j else [])"

fun put_cells :: "nat \<Rightarrow> string list \<Rightarrow> string list \<Rightarrow> string list" where
  "put_cells c [] row = row"
| "put_cells c (v # vs) row =
     put_cells (Suc c) vs ((row @ replicate (Suc c - length row) [])[c := v])"

fun put_rows :: "nat \<Rightarrow> nat \<Rightarrow> string list list \<Rightarrow> sheet_values \<Rightarrow> sheet_values" where
  "put_rows r c [] sh = sh"
| "put_rows r c (vs # vss) sh =
     put_rows (Suc r) c vss
       ((sh @ replicate (Suc r - length sh) [])
          [r := put_cells c vs (if r < length sh then sh ! r else [])])"

fun apply_request :: "sheet_values \<Rightarrow> sheet_request \<Rightarrow> sheet_values" where
  "apply_request sh (ValuesUpdate tab c1 r1 c2 r2 vals) = put_rows (r1 - 1) (col_index c1) vals sh"
| "apply_request sh (ValuesAppend rng vals) = sh @ vals"


text \<open>Row index \<open>i\<close> (0-based, the header is row 0) is the bottom-most unanswered row for the
  job among the rows \<open>1..n\<close>.\<close>

definition bottom_unanswered :: "sheet_values \<Rightarrow> string \<Rightarrow> nat \<Rightarrow> nat \<Rightarrow> bool" where
  "bottom_unanswered vals job n i =
     (1 \<le> i \<and> i \<le> n \<and> unanswered job (vals ! i)
      \<and> (\<forall>j. i < j \<and> j \<le> n \<longrightarrow> \<not> unanswered job (vals ! j)))"


text \<open>A sample Question Log: the header, an unanswered row for job 12345 as the read returns
  it (the empty trailing cell of column O is absent), and an answered row.\<close>

definition sample_header :: "string list" where
  "sample_header = [''Job #'', ''Job name'', ''Request DATE'', ''Request TIME'', ''Requested by'',
     ''Request BODY'', ''Response DATE'', ''Response TIME'', ''Response FROM'', ''Response BODY'',
     ''Monday Item ID'', ''Internal TS'', ''Client Root TS'', ''Internal Channel ID'',
     ''Client Channel ID'']"

definition sample_open_row :: "string list" where
  "sample_open_row = [''12345'', ''Acme'', ''2024-05-01'', ''09:00:00'', ''Al'', ''Q #12345?'',
     [], [], [], [], ''77'', ''111.1'', [], ''CINT'']"

definition sample_answered_row :: "string list" where
  "sample_answered_row = [''12345'', ''Acme'', ''2024-05-02'', ''09:30:00'', ''Al'', ''R #12345?'',
     ''2024-05-03'', ''08:00:00'', ''Pat'', ''Yes'', ''77'', ''333.3'', ''444.4'', ''CINT'', ''CCLI'']"


section \<open>Document revision formatter: \<^verbatim>\<open>append_revision_divider\<close>\<close>

text \<open>
  The texts of this component are Unicode texts (\<open>ustr\<close>; the header has an en dash). Indexes
  are Python integers.
\<close>

text \<open>Decimal notation of a natural number and of an integer (\<^verbatim>\<open>str(n)\<close>).\<close>

function dec :: "nat \<Rightarrow> string" where
  "dec n = (if n < 10 then [char_of (48 + n)] else dec (n div 10) @ [char_of (48 + n mod 10)])"
  by pat_completeness auto
termination
  by (relation "measure id") auto

declare dec.simps [simp del]

definition str_int :: "int \<Rightarrow> string" where
  "str_int i = (if i < 0 then CHR ''-'' # dec (nat (- i)) else dec (nat i))"

text \<open>The reading of \<^verbatim>\<open>datetime.now()\<close>, as far as \<^verbatim>\<open>strftime("%m/%d/%Y")\<close> uses it: month
  and day with two digits, then the year.\<close>

record date =
  year :: nat
  month :: nat
  day :: nat

definition pad2 :: "nat \<Rightarrow> string" where
  "pad2 n = (if n < 10 then CHR ''0'' # dec n else dec n)"

definition strftime_mdY :: "date \<Rightarrow> string" where
  "strftime_mdY d = pad2 (month d) @ ''/'' @ pad2 (day d) @ ''/'' @ dec (year d)"

text \<open>The requests of the documents interface that the code builds.\<close>

record rgb =
  red :: real
  green :: real
  blue :: real

record text_style =
  bold :: "bool option"
  italic :: "bool option"
  foregroundColor :: "rgb option"

datatype doc_request =
    UpdateTextStyle int int text_style string
  | InsertText int ustr

text \<open>\<^verbatim>\<open>body_content[-1]["endIndex"] - 1 if body_content else 1\<close>, on the list of the
  \<^verbatim>\<open>endIndex\<close> values of the document's content elements.\<close>

definition doc_end_index :: "int list \<Rightarrow> int" where
  "doc_end_index body_content = (if body_content = [] then 1 else last body_content - 1)"

definition divider_line :: ustr where
  "divider_line = replicate 72 (of_char CHR ''='')"

definition header_text :: "int \<Rightarrow> date \<Rightarrow> ustr" where
  "header_text rev_num today =
     ustr_of ''REVISION #'' @ ustr_of (str_int rev_num) @ [32, 8211, 32] @ ustr_of (strftime_mdY today)"

definition text_to_insert :: "ustr \<Rightarrow> int \<Rightarrow> date \<Rightarrow> ustr" where
  "text_to_insert triggering_text rev_num today =
     [10, 10] @ divider_line @ [10, 10] @ header_text rev_num today @ [10, 10]
       @ triggering_text @ [10, 10]"

text \<open>\<^verbatim>\<open>append_revision_divider\<close>: the list \<^verbatim>\<open>requests\<close> handed to the one
  \<^verbatim>\<open>batchUpdate\<close> call, for the document content that \<^verbatim>\<open>documents().get\<close> returned.\<close>

definition append_revision_divider :: "int list \<Rightarrow> ustr \<Rightarrow> int \<Rightarrow> date \<Rightarrow> doc_request list" where
  "append_revision_divider body_content triggering_text rev_num today =
     (let end_index = doc_end_index body_content;
          divider_rel_start = 2;
          divider_rel_end = divider_rel_start + int (length divider_line);
          header_rel_start = divider_rel_end + 2;
          header_rel_end = header_rel_start + int (length (header_text rev_num today));
          msg_rel_start = header_rel_end + 2;
          msg_rel_end = msg_rel_start + int (length triggering_text);
          requests1 =
            (if end_index > 1
             then [UpdateTextStyle 1 end_index
                     \<lparr>bold = None, italic = Some True,
                      foregroundColor = Some \<lparr>red = 1 / 2, green = 1 / 2, blue = 1 / 2\<rparr>\<rparr>
                     ''italic,foregroundColor'']
             else []);
          abs_divider_start = end_index + divider_rel_start;
          abs_divider_end = end_index + divider_rel_end;
          abs_header_start = end_index + header_rel_start;
          abs_header_end = end_index + header_rel_end;
          abs_msg_start = end_index + msg_rel_start;
          abs_msg_end = end_index + msg_rel_end
      in requests1 @
         [InsertText end_index (text_to_insert triggering_text rev_num today),
          UpdateTextStyle abs_divider_start abs_divider_end
            \<lparr>bold = Some True, italic = None, foregroundColor = None\<rparr> ''bold'',
          UpdateTextStyle abs_header_start abs_header_end
            \<lparr>bold = Some True, italic = Some False,
             foregroundColor = Some \<lparr>red = 0, green = 0, blue = 0\<rparr>\<rparr>
            ''bold,italic,foregroundColor'',
          UpdateTextStyle abs_msg_start abs_msg_end
            \<lparr>bold = None, italic = Some False,
             foregroundColor = Some \<lparr>red = 0, green = 0, blue = 0\<rparr>\<rparr>
            ''italic,foregroundColor''])"

text \<open>
  The document service counts indexes in UTF-16 code units: a character up to U+FFFF takes
  one index, a character above it two. \<open>occupied pos pre seg\<close> is the index range that the
  piece \<open>seg\<close> takes in the document when a block in which \<open>seg\<close> stands right after \<open>pre\<close> is
  inserted at index \<open>pos\<close>.
\<close>

definition utf16_units :: "nat \<Rightarrow> nat" where
  "utf16_units c = (if c < 65536 then 1 else 2)"

definition utf16_len :: "ustr \<Rightarrow> nat" where
  "utf16_len s = sum_list (map utf16_units s)"

definition occupied :: "int \<Rightarrow> ustr \<Rightarrow> ustr \<Rightarrow> int \<times> int" where
  "occupied pos pre seg =
     (pos + int (utf16_len pre), pos + int (utf16_len pre) + int (utf16_len seg))"

text \<open>What stands before the triggering text in the inserted block.\<close>

definition before_message :: "int \<Rightarrow> date \<Rightarrow> ustr" where
  "before_message rev_num today =
     [10, 10] @ divider_line @ [10, 10] @ header_text rev_num today @ [10, 10]"

text \<open>The specification's wording for the header: the number in decimal notation (the digits
  have the number as their value) and the date as \<^verbatim>\<open>MM/DD/YYYY\<close>.\<close>

definition digit_char :: "nat \<Rightarrow> char" where
  "digit_char n = char_of (48 + n)"

definition decimal_value :: "string \<Rightarrow> nat" where
  "decimal_value s = foldl (\<lambda>a c. 10 * a + (of_char c - 48)) 0 s"

definition valid_date :: "date \<Rightarrow> bool" where
  "valid_date d = (1 \<le> month d \<and> month d \<le> 12 \<and> 1 \<le> day d \<and> day d \<le> 31
     \<and> 1000 \<le> year d \<and> year d \<le> 9999)"

definition MM_DD_YYYY :: "date \<Rightarrow> string" where
  "MM_DD_YYYY d =
     [digit_char (month d div 10), digit_char (month d mod 10), CHR ''/'',
      digit_char (day d div 10), digit_char (day d mod 10), CHR ''/'',
      digit_char (year d div 1000), digit_char (year d div 100 mod 10),
      digit_char (year d div 10 mod 10), digit_char (year d mod 10)]"

text \<open>Two sample dates for the header.\<close>

definition sample_date :: date where
  "sample_date = \<lparr>year = 2024, month = 5, day = 4\<rparr>"

definition sample_date2 :: date where
  "sample_date2 = \<lparr>year = 2031, month = 12, day = 25\<rparr>"


section \<open>Module state of \<^verbatim>\<open>app.py\<close> and the startup rebuild\<close>

text \<open>
  The two module-level caches. \<open>PENDING_INTERNAL\<close> is \<open>None\<close> as long as the module has not
  executed the assignment that binds the name (a use of the name then raises
  \<^verbatim>\<open>NameError\<close>); \<open>RELAY\<close> is the object bound to \<^verbatim>\<open>RELAY_MEM\<close>.
\<close>

record app_state =
  PENDING_INTERNAL :: "(string \<rightharpoonup> string \<times> string) option"
  RELAY :: RelayMemory

text \<open>The body of the \<^verbatim>\<open>for\<close> loop of \<^verbatim>\<open>rebuild_from_sheet_cache\<close> for one row. \<open>clk\<close> gives
  the successive readings of \<^verbatim>\<open>time.time()\<close> and \<open>n\<close> counts the readings taken so far. The
  inner \<^verbatim>\<open>try\<close> around \<^verbatim>\<open>save_map\<close> has nothing to catch. An exception comes with the
  state at the moment it is raised.\<close>

definition rebuild_row ::
  "(nat \<Rightarrow> real) \<Rightarrow> nat \<Rightarrow> app_state \<Rightarrow> string list
    \<Rightarrow> (py_error \<times> app_state) + (app_state \<times> nat)" where
  "rebuild_row clk n st r =
     (let job = cell_strip r 0;
          internal_ts = cell_strip r 11;
          client_ts = cell_strip r 12;
          internal_ch = cell_strip r 13;
          client_ch = cell_strip r 14
      in case (if job \<noteq> [] \<and> internal_ts \<noteq> [] \<and> internal_ch \<noteq> []
               then (case PENDING_INTERNAL st of
                       None \<Rightarrow> Inl (NameError ''PENDING_INTERNAL'', st)
                     | Some p \<Rightarrow>
                         Inr (st\<lparr>PENDING_INTERNAL := Some (p(job \<mapsto> (internal_ch, internal_ts)))\<rparr>))
               else Inr st) of
           Inl e \<Rightarrow> Inl e
         | Inr st1 \<Rightarrow>
             if job \<noteq> [] \<and> client_ts \<noteq> [] \<and> internal_ts \<noteq> [] \<and> internal_ch \<noteq> []
             then Inr (st1\<lparr>RELAY := RelayMemory_save_map (RELAY st1) job internal_ch internal_ts
                                      client_ts (clk n) (clk (n + 1))\<rparr>, n + 2)
             else Inr (st1, n))"

fun rebuild_rows ::
  "(nat \<Rightarrow> real) \<Rightarrow> nat \<Rightarrow> app_state \<Rightarrow> sheet_values
    \<Rightarrow> (py_error \<times> app_state) + (app_state \<times> nat)" where
  "rebuild_rows clk n st [] = Inr (st, n)"
| "rebuild_rows clk n st (r # rs) =
     (case rebuild_row clk n st r of
        Inl e \<Rightarrow> Inl e
      | Inr (st', n') \<Rightarrow> rebuild_rows clk n' st' rs)"

text \<open>\<^verbatim>\<open>rebuild_from_sheet_cache\<close> with \<^verbatim>\<open>max_rows = 200\<close>. \<open>read_result\<close> is what the read of
  \<^verbatim>\<open>QuestionsLog!A:O\<close> gave. The final \<^verbatim>\<open>logger.info\<close> evaluates \<^verbatim>\<open>len(PENDING_INTERNAL)\<close>;
  the two counts of its message are left out of the log line. An exception raised anywhere
  leaves the assignments made before it in place.\<close>

definition rebuild_from_sheet_cache ::
  "py_error + sheet_values \<Rightarrow> (nat \<Rightarrow> real) \<Rightarrow> app_state \<Rightarrow> app_state \<times> log_entry list" where
  "rebuild_from_sheet_cache read_result clk st =
     (case read_result of
        Inl e \<Rightarrow> (st, [LogError (''rebuild_from_sheet_cache failed: '' @ str_of_error e)])
      | Inr vals \<Rightarrow>
          (case vals of
             [] \<Rightarrow> (st, [])
           | header # rows \<Rightarrow>
               (case rebuild_rows clk 0 st (drop (length rows - 200) rows) of
                  Inl (e, st') \<Rightarrow>
                    (st', [LogError (''rebuild_from_sheet_cache failed: '' @ str_of_error e)])
                | Inr (st', n) \<Rightarrow>
                    (case PENDING_INTERNAL st' of
                       None \<Rightarrow>
                         (st', [LogError (''rebuild_from_sheet_cache failed: ''
                                  @ str_of_error (NameError ''PENDING_INTERNAL''))])
                     | Some p \<Rightarrow> (st', [LogInfo ''Rebuilt cache from sheet''])))))"

text \<open>The module-level statements of \<^verbatim>\<open>app.py\<close> that touch the caches, in the order of the
  file: \<^verbatim>\<open>RELAY_MEM = RelayMemory()\<close> (line 72), \<^verbatim>\<open>rebuild_from_sheet_cache(app.logger)\<close>
  (line 180), \<^verbatim>\<open>PENDING_INTERNAL = {}\<close> (line 185).\<close>

definition startup :: "py_error + sheet_values \<Rightarrow> (nat \<Rightarrow> real) \<Rightarrow> app_state \<times> log_entry list" where
  "startup read_result clk =
     (case rebuild_from_sheet_cache read_result clk \<lparr>PENDING_INTERNAL = None, RELAY = RELAY_MEM\<rparr> of
        (st, logs) \<Rightarrow> (st\<lparr>PENDING_INTERNAL := Some Map.empty\<rparr>, logs))"

text \<open>A row of the sample log that has been linked to a client thread.\<close>

definition sample_linked_row :: "string list" where
  "sample_linked_row = [''12345'', ''Acme'', ''2024-05-01'', ''09:00:00'', ''Al'', ''Q #12345?'',
     [], [], [], [], ''77'', ''111.1'', ''222.2'', ''CINT'', ''CCLI'']"


section \<open>The message router: \<^verbatim>\<open>message_router\<close>\<close>

record config =
  INTERNAL_CHANNEL_IDS :: "string list"
  CLIENT_CHANNEL_IDS :: "string list"

text \<open>The fields of the event that the router reads; an absent key is \<open>None\<close>.\<close>

record event =
  ev_subtype :: "string option"
  ev_bot_id :: "string option"
  ev_channel :: string
  ev_text :: "string option"
  ev_ts :: string
  ev_thread_ts :: "string option"
  ev_user :: string

text \<open>Python's truth value of an optional string.\<close>

definition truthy :: "string option \<Rightarrow> bool" where
  "truthy s = (case s of None \<Rightarrow> False | Some v \<Rightarrow> v \<noteq> [])"

definition is_client_channel :: "config \<Rightarrow> string \<Rightarrow> bool" where
  "is_client_channel cfg chan =
     (if chan \<in> set (INTERNAL_CHANNEL_IDS cfg) then False
      else if CLIENT_CHANNEL_IDS cfg \<noteq> [] then chan \<in> set (CLIENT_CHANNEL_IDS cfg)
      else True)"

text \<open>What the external calls made while one event is handled give back: the user lookup, the
  clock, the read of the Job Log, the errors (if any) of the append, of the read and of the
  write on the Question Log and of the chat post, and the two clock readings of a relay save.\<close>

record user_info =
  real_name :: "string option"
  display_name :: "string option"
  account_name :: "string option"

record outcomes =
  users_info :: "py_error + user_info"
  now_date :: string
  now_time :: string
  joblog_read :: "py_error + sheet_values"
  append_error :: "py_error option"
  read_error :: "py_error option"
  write_error :: "py_error option"
  post_error :: "py_error option"
  t_created :: real
  t_evict :: real

datatype chat_post = ChatPost string string string

text \<open>\<^verbatim>\<open>_get_user_name_safe\<close>\<close>

definition get_user_name_safe :: "py_error + user_info \<Rightarrow> string \<Rightarrow> string \<times> log_entry list" where
  "get_user_name_safe lookup user_id =
     (case lookup of
        Inl e \<Rightarrow> (user_id, [LogError (''users_info failed: '' @ str_of_error e)])
      | Inr ui \<Rightarrow>
          (if truthy (real_name ui) then the (real_name ui)
           else if truthy (display_name ui) then the (display_name ui)
           else if truthy (account_name ui) then the (account_name ui)
           else user_id, []))"

text \<open>The Question Log as the service holds it changes by the requests that did not fail.\<close>

definition commit :: "py_error option \<Rightarrow> sheet_values \<Rightarrow> sheet_request list \<Rightarrow> sheet_values" where
  "commit err qlog reqs = (case err of None \<Rightarrow> foldl apply_request qlog reqs | Some e \<Rightarrow> qlog)"

definition read_log :: "py_error option \<Rightarrow> sheet_values \<Rightarrow> py_error + sheet_values" where
  "read_log err qlog = (case err of None \<Rightarrow> Inr qlog | Some e \<Rightarrow> Inl e)"

text \<open>The branch ``Internal question handling'' once the tag has matched.\<close>

definition internal_question ::
  "outcomes \<Rightarrow> event \<Rightarrow> string \<Rightarrow> string \<Rightarrow> app_state \<times> sheet_values
    \<Rightarrow> py_error + (app_state \<times> sheet_values \<times> chat_post list \<times> log_entry list)" where
  "internal_question oc ev txt jn sq =
     (case sq of (st, qlog) \<Rightarrow>
       (case get_user_name_safe (users_info oc) (ev_user ev) of (user_name, log1) \<Rightarrow>
         (case (case joblog_read oc of
                  Inl e \<Rightarrow> ([], [], [LogError (''Job Log lookup failed: '' @ str_of_error e)])
                | Inr rows \<Rightarrow>
                    (case find_job_in_joblog rows jn of
                       None \<Rightarrow> ([], [], [])
                     | Some jl \<Rightarrow> (job_name jl, monday_item_id jl, []))) of
            (jname, monday_id, log2) \<Rightarrow>
              (let row = [jn, jname, now_date oc, now_time oc, user_name, txt, [], [], [], [],
                          monday_id, ev_ts ev, [], ev_channel ev, []];
                   qlog' = commit (append_error oc) qlog [ValuesAppend ''QuestionsLog!A:O'' [row]];
                   log3 = after_write ''Sheet append failed: '' (append_error oc)
               in case PENDING_INTERNAL st of
                    None \<Rightarrow> Inl (NameError ''PENDING_INTERNAL'')
                  | Some p \<Rightarrow>
                      Inr (st\<lparr>PENDING_INTERNAL := Some (p(jn \<mapsto> (ev_channel ev, ev_ts ev)))\<rparr>,
                           qlog', [], log1 @ log2 @ log3)))))"

text \<open>The branch ``Client root regurgitation'' once the tag has matched on a thread root.\<close>

definition client_root ::
  "outcomes \<Rightarrow> event \<Rightarrow> string \<Rightarrow> app_state \<times> sheet_values
    \<Rightarrow> py_error + (app_state \<times> sheet_values \<times> chat_post list \<times> log_entry list)" where
  "client_root oc ev jn sq =
     (case sq of (st, qlog) \<Rightarrow>
       (case PENDING_INTERNAL st of
          None \<Rightarrow> Inl (NameError ''PENDING_INTERNAL'')
        | Some p \<Rightarrow>
            (case p jn of
               None \<Rightarrow>
                 Inr (st, qlog, [],
                      [LogWarning (''[REGURG] no cached internal thread for job '' @ jn)])
             | Some (internal_channel, internal_ts) \<Rightarrow>
                 (let relay' = RelayMemory_save_map (RELAY st) jn internal_channel internal_ts
                                 (ev_ts ev) (t_created oc) (t_evict oc)
                  in case update_client_thread_info (read_log (read_error oc) qlog) (write_error oc)
                            jn (ev_ts ev) (ev_channel ev) of
                       (reqs, logs) \<Rightarrow>
                         Inr (st\<lparr>RELAY := relay'\<rparr>, commit (write_error oc) qlog reqs, [], logs)))))"

text \<open>The branch ``Client reply in thread''.\<close>

definition client_reply ::
  "outcomes \<Rightarrow> event \<Rightarrow> string \<Rightarrow> string \<Rightarrow> app_state \<times> sheet_values
    \<Rightarrow> py_error + (app_state \<times> sheet_values \<times> chat_post list \<times> log_entry list)" where
  "client_reply oc ev txt thread_ts sq =
     (case sq of (st, qlog) \<Rightarrow>
       (case RelayMemory_by_client_thread (RELAY st) thread_ts of
          (None, relay') \<Rightarrow> Inr (st\<lparr>RELAY := relay'\<rparr>, qlog, [], [])
        | (Some (jn, internal_channel, internal_ts), relay') \<Rightarrow>
            (case get_user_name_safe (users_info oc) (ev_user ev) of (user_name, log1) \<Rightarrow>
              (case update_sheet_response_for_job
                      (read_log (read_error oc) (map (take 11) qlog)) (write_error oc)
                      jn (now_date oc) (now_time oc) user_name txt of
                 (reqs, log2) \<Rightarrow>
                   Inr (st\<lparr>RELAY := relay'\<rparr>, commit (write_error oc) qlog reqs,
                        [ChatPost internal_channel internal_ts
                           (''*Client reply* ('' @ user_name @ '')'' @ [CHR 0x0A] @ txt)],
                        log1 @ log2
                          @ after_write ''Failed posting back to internal thread: '' (post_error oc))))))"

text \<open>\<^verbatim>\<open>message_router\<close>. The argument is the event of the body (\<open>None\<close> when it is missing or
  empty), the caches and the Question Log; the result is the exception that escapes the
  handler, or the caches and the log afterwards, the chat posts attempted and the warnings
  and errors logged.\<close>

definition message_router ::
  "config \<Rightarrow> outcomes \<Rightarrow> event option \<Rightarrow> app_state \<times> sheet_values
    \<Rightarrow> py_error + (app_state \<times> sheet_values \<times> chat_post list \<times> log_entry list)" where
  "message_router cfg oc body_event sq =
     (case body_event of
        None \<Rightarrow> Inr (fst sq, snd sq, [], [])
      | Some ev \<Rightarrow>
          if truthy (ev_subtype ev) \<or> truthy (ev_bot_id ev) then Inr (fst sq, snd sq, [], [])
          else
            (let channel = ev_channel ev;
                 txt = strip (case ev_text ev of None \<Rightarrow> [] | Some t \<Rightarrow> t);
                 ts = ev_ts ev;
                 thread_ts = ev_thread_ts ev;
                 is_internal = (channel \<in> set (INTERNAL_CHANNEL_IDS cfg));
                 is_client = is_client_channel cfg channel
             in if is_internal
                then (case JOB_TAG_RE_search txt of
                        None \<Rightarrow> Inr (fst sq, snd sq, [], [])
                      | Some jn \<Rightarrow> internal_question oc ev txt jn sq)
                else if is_client
                then (case JOB_TAG_RE_search txt of
                        Some jn \<Rightarrow>
                          if \<not> truthy thread_ts \<or> thread_ts = Some ts
                          then client_root oc ev jn sq
                          else client_reply oc ev txt (the thread_ts) sq
                      | None \<Rightarrow>
                          if truthy thread_ts then client_reply oc ev txt (the thread_ts) sq
                          else Inr (fst sq, snd sq, [], []))
                else Inr (fst sq, snd sq, [], [])))"


text \<open>A sample event: a tagged question in an internal channel, handled while the user lookup,
  the Job Log read and the append to the Question Log all fail.\<close>

definition sample_config :: config where
  "sample_config = \<lparr>INTERNAL_CHANNEL_IDS = [''C08HUKW7NDU'', ''C08SLQ1J952''], CLIENT_CHANNEL_IDS = []\<rparr>"

definition sample_event :: event where
  "sample_event = \<lparr>ev_subtype = None, ev_bot_id = None, ev_channel = ''C08HUKW7NDU'',
     ev_text = Some ''Please confirm #12345?'', ev_ts = ''111.1'', ev_thread_ts = None,
     ev_user = ''U1''\<rparr>"

definition failing_append :: outcomes where
  "failing_append = \<lparr>users_info = Inl (ServiceError ''timeout''), now_date = ''2024-05-01'',
     now_time = ''09:00:00'', joblog_read = Inl (ServiceError ''timeout''),
     append_error = Some (ServiceError ''HttpError 503''), read_error = None, write_error = None,
     post_error = None, t_created = 0, t_evict = 0\<rparr>"


section \<open>Job-tag detection: proofs\<close>

lemma digits_u_sound:
  "digits_u n s = Some (ds, r) \<Longrightarrow> s = ds @ r \<and> length ds = n \<and> list_all unicode_digit ds"
proof (induction n s arbitrary: ds r rule: digits_u.induct)
  case (1 s)
  then show ?case by simp
next
  case (2 n)
  then show ?case by simp
next
  case (3 n c cs)
  from "3.prems" have c: "unicode_digit c"
    by (simp split: if_splits)
  with "3.prems" obtain ds' where m: "digits_u n cs = Some (ds', r)" and ds: "ds = c # ds'"
    by (auto split: option.splits)
  from "3.IH" [OF c m] c ds show ?case by simp
qed

lemma digits_u_complete:
  "length ds = n \<Longrightarrow> list_all unicode_digit ds \<Longrightarrow> digits_u n (ds @ r) = Some (ds, r)"
proof (induction ds arbitrary: n)
  case Nil
  then show ?case by simp
next
  case (Cons d ds)
  then obtain m where n: "n = Suc m" and m: "length ds = m"
    by (cases n) auto
  from Cons.prems have "unicode_digit d" "list_all unicode_digit ds" by simp_all
  with Cons.IH [OF m] n show ?case by simp
qed

lemma digits_u_iff:
  "digits_u n s = Some (ds, r) \<longleftrightarrow> (s = ds @ r \<and> length ds = n \<and> list_all unicode_digit ds)"
  using digits_u_sound digits_u_complete by blast

lemma JOB_TAG_RE_match_u_iff:
  "JOB_TAG_RE_match_u s = Some ds \<longleftrightarrow> (\<exists>post. job_tag_at s [] ds post)"
proof
  assume "JOB_TAG_RE_match_u s = Some ds"
  then obtain rest r q where s: "s = 35 # rest"
    and m: "digits_u 5 rest = Some (ds, r)" and r: "r = 63 # q"
    by (auto simp: JOB_TAG_RE_match_u_def split: list.splits if_splits option.splits)
  from m have "rest = ds @ r" "length ds = 5" "list_all unicode_digit ds"
    by (simp_all add: digits_u_iff)
  with s r show "\<exists>post. job_tag_at s [] ds post"
    by (auto simp: job_tag_at_def)
next
  assume "\<exists>post. job_tag_at s [] ds post"
  then obtain post where s: "s = 35 # ds @ 63 # post"
    and d: "length ds = 5" "list_all unicode_digit ds"
    by (auto simp: job_tag_at_def)
  from d have "digits_u 5 (ds @ 63 # post) = Some (ds, 63 # post)"
    by (simp add: digits_u_iff)
  with s show "JOB_TAG_RE_match_u s = Some ds"
    by (simp add: JOB_TAG_RE_match_u_def)
qed

lemma job_tag_at_Nil: "\<not> job_tag_at [] pre ds post"
  by (simp add: job_tag_at_def)

lemma job_tag_at_Cons:
  "job_tag_at (c # cs) pre ds post \<longleftrightarrow>
     (pre = [] \<and> job_tag_at (c # cs) [] ds post) \<or> (\<exists>pre'. pre = c # pre' \<and> job_tag_at cs pre' ds post)"
  by (cases pre) (auto simp: job_tag_at_def)

lemma JOB_TAG_RE_match_u_None:
  "JOB_TAG_RE_match_u s = None \<longleftrightarrow> (\<forall>ds post. \<not> job_tag_at s [] ds post)"
proof -
  have "JOB_TAG_RE_match_u s = None \<longleftrightarrow> (\<forall>ds. JOB_TAG_RE_match_u s \<noteq> Some ds)"
    by auto
  then show ?thesis
    by (simp add: JOB_TAG_RE_match_u_iff)
qed

lemma JOB_TAG_RE_search_u_None:
  "JOB_TAG_RE_search_u msg = None \<longleftrightarrow> (\<forall>pre ds post. \<not> job_tag_at msg pre ds post)"
proof (induction msg)
  case Nil
  then show ?case by (simp add: job_tag_at_Nil)
next
  case (Cons c cs)
  have "JOB_TAG_RE_search_u (c # cs) = None \<longleftrightarrow>
      JOB_TAG_RE_match_u (c # cs) = None \<and> JOB_TAG_RE_search_u cs = None"
    by (simp split: option.splits)
  also have "\<dots> \<longleftrightarrow> (\<forall>ds post. \<not> job_tag_at (c # cs) [] ds post) \<and>
      (\<forall>pre ds post. \<not> job_tag_at cs pre ds post)"
    by (simp only: JOB_TAG_RE_match_u_None Cons.IH)
  also have "\<dots> \<longleftrightarrow> (\<forall>pre ds post. \<not> job_tag_at (c # cs) pre ds post)"
  proof (intro iffI allI)
    fix pre ds post
    assume a: "(\<forall>ds post. \<not> job_tag_at (c # cs) [] ds post) \<and>
      (\<forall>pre ds post. \<not> job_tag_at cs pre ds post)"
    show "\<not> job_tag_at (c # cs) pre ds post"
    proof
      assume "job_tag_at (c # cs) pre ds post"
      then have "job_tag_at (c # cs) [] ds post \<or> (\<exists>pre'. job_tag_at cs pre' ds post)"
        using job_tag_at_Cons [of c cs pre ds post] by blast
      with a show False by blast
    qed
  next
    assume a: "\<forall>pre ds post. \<not> job_tag_at (c # cs) pre ds post"
    have "\<not> job_tag_at cs pre ds post" for pre ds post
    proof
      assume "job_tag_at cs pre ds post"
      then have "job_tag_at (c # cs) (c # pre) ds post"
        using job_tag_at_Cons [of c cs "c # pre" ds post] by simp
      with a show False by simp
    qed
    with a show "(\<forall>ds post. \<not> job_tag_at (c # cs) [] ds post) \<and>
      (\<forall>pre ds post. \<not> job_tag_at cs pre ds post)" by simp
  qed
  finally show ?case .
qed

lemma JOB_TAG_RE_search_u_Some:
  "JOB_TAG_RE_search_u msg = Some ds \<longleftrightarrow> first_job_tag msg ds"
proof (induction msg)
  case Nil
  then show ?case by (simp add: first_job_tag_def job_tag_at_Nil)
next
  case (Cons c cs)
  show ?case
  proof (cases "JOB_TAG_RE_match_u (c # cs)")
    case None
    then have no: "\<And>ds post. \<not> job_tag_at (c # cs) [] ds post"
      by (simp add: JOB_TAG_RE_match_u_None)
    have shift: "job_tag_at (c # cs) pre ds post \<longleftrightarrow>
        (\<exists>pre'. pre = c # pre' \<and> job_tag_at cs pre' ds post)"
      for pre ds post
      using no [of ds post] job_tag_at_Cons [of c cs pre ds post] by simp
    have "first_job_tag (c # cs) ds \<longleftrightarrow> first_job_tag cs ds"
    proof
      assume "first_job_tag (c # cs) ds"
      then obtain pre post where p: "job_tag_at (c # cs) pre ds post"
        and m: "\<And>pre' ds' post'. job_tag_at (c # cs) pre' ds' post' \<Longrightarrow> length pre \<le> length pre'"
        unfolding first_job_tag_def by blast
      from p obtain q where q: "pre = c # q" "job_tag_at cs q ds post"
        unfolding shift by blast
      have "length q \<le> length pre'" if "job_tag_at cs pre' ds' post'" for pre' ds' post'
      proof -
        from that have "job_tag_at (c # cs) (c # pre') ds' post'"
          unfolding shift by blast
        from m [OF this] q show ?thesis by simp
      qed
      with q show "first_job_tag cs ds"
        unfolding first_job_tag_def by blast
    next
      assume "first_job_tag cs ds"
      then obtain q post where q: "job_tag_at cs q ds post"
        and m: "\<And>pre' ds' post'. job_tag_at cs pre' ds' post' \<Longrightarrow> length q \<le> length pre'"
        unfolding first_job_tag_def by blast
      from q have p: "job_tag_at (c # cs) (c # q) ds post"
        unfolding shift by blast
      have "length (c # q) \<le> length pre'" if "job_tag_at (c # cs) pre' ds' post'" for pre' ds' post'
      proof -
        from that obtain r where "pre' = c # r" "job_tag_at cs r ds' post'"
          unfolding shift by blast
        with m show ?thesis by auto
      qed
      with p show "first_job_tag (c # cs) ds"
        unfolding first_job_tag_def by blast
    qed
    with None Cons.IH show ?thesis by simp
  next
    case (Some g)
    then obtain post0 where g: "job_tag_at (c # cs) [] g post0"
      by (auto simp: JOB_TAG_RE_match_u_iff)
    have "first_job_tag (c # cs) ds \<longleftrightarrow> ds = g"
    proof
      assume "first_job_tag (c # cs) ds"
      then obtain pre post where p: "job_tag_at (c # cs) pre ds post"
        and m: "\<forall>pre' ds' post'. job_tag_at (c # cs) pre' ds' post' \<longrightarrow> length pre \<le> length pre'"
        by (auto simp: first_job_tag_def)
      from m g have "pre = []" by fastforce
      with p have "JOB_TAG_RE_match_u (c # cs) = Some ds"
        by (auto simp: JOB_TAG_RE_match_u_iff)
      with Some show "ds = g" by simp
    next
      assume "ds = g"
      with g show "first_job_tag (c # cs) ds"
        unfolding first_job_tag_def by (intro exI [of _ "[]"] exI [of _ post0]) simp
    qed
    with Some show ?thesis by auto
  qed
qed





lemma digits_u_Nil: "digits_u n [] = (if n = 0 then Some ([], []) else None)"
  by (cases n) simp_all

lemma digits_u_Cons:
  "digits_u n (c # cs) =
     (if n = 0 then Some ([], c # cs)
      else if unicode_digit c
      then (case digits_u (n - 1) cs of None \<Rightarrow> None | Some (ds, r) \<Rightarrow> Some (c # ds, r))
      else None)"
  by (cases n) simp_all

lemma unicode_digit_low: "c < 1632 \<Longrightarrow> unicode_digit c \<longleftrightarrow> 48 \<le> c \<and> c \<le> 57"
  by (auto simp: unicode_digit_def unicode_decimal_ranges_def)

lemma unicode_digit_of_char: "unicode_digit (of_char c) = isdigit c"
proof -
  have "(of_char c :: nat) < 256"
    by (metis of_char_mod_256 mod_less_divisor zero_less_numeral)
  then have "(of_char c :: nat) < 1632" by (rule less_trans) simp
  then show ?thesis by (simp add: unicode_digit_low isdigit_def)
qed

lemma ex_ascii: "JOB_TAG_RE_search_u (ustr_of ''Please confirm #12345?'') = Some (ustr_of ''12345'')"
  by (simp add: ustr_of_def JOB_TAG_RE_match_u_def digits_u_Cons digits_u_Nil unicode_digit_low)

lemma ex_none:
  "JOB_TAG_RE_search_u (ustr_of ''#1234?'') = None"
  "JOB_TAG_RE_search_u (ustr_of ''#123456?'') = None"
  "JOB_TAG_RE_search_u (ustr_of ''#12345 ?'') = None"
  "JOB_TAG_RE_search_u (ustr_of ''#1234??'') = None"
  "JOB_TAG_RE_search_u (ustr_of ''#12a45?'') = None"
  "JOB_TAG_RE_search_u ([35, 49, 50, 51, 52, 178, 63]) = None"
  by (simp_all add: ustr_of_def JOB_TAG_RE_match_u_def digits_u_Cons digits_u_Nil unicode_digit_low)

lemma ex_unicode:
  "JOB_TAG_RE_search_u [35, 1633, 1634, 1635, 1636, 1637, 63] = Some [1633, 1634, 1635, 1636, 1637]"
  "JOB_TAG_RE_search_u [35, 65297, 65298, 65299, 65300, 65301, 63] = Some [65297, 65298, 65299, 65300, 65301]"
  by (simp_all add: JOB_TAG_RE_match_u_def digits_u_Cons digits_u_Nil unicode_digit_def
      unicode_decimal_ranges_def)


lemma of_char_eq_35: "(of_char c :: nat) = 35 \<longleftrightarrow> c = CHR ''#''"
proof -
  have "(of_char CHR ''#'' :: nat) = 35" by simp
  then show ?thesis by (metis of_char_eq_iff)
qed

lemma of_char_eq_63: "(of_char c :: nat) = 63 \<longleftrightarrow> c = CHR ''?''"
proof -
  have "(of_char CHR ''?'' :: nat) = 63" by simp
  then show ?thesis by (metis of_char_eq_iff)
qed

lemma digits_u_ustr_of:
  "digits_u n (ustr_of s) = map_option (\<lambda>(ds, r). (ustr_of ds, ustr_of r)) (match_digits n s)"
proof (induction n s rule: match_digits.induct)
  case (1 s)
  then show ?case by (simp add: ustr_of_def)
next
  case (2 n)
  then show ?case by (simp add: ustr_of_def)
next
  case (3 n c cs)
  show ?case
  proof (cases "isdigit c")
    case True
    with "3.IH" show ?thesis
      by (auto simp: ustr_of_def unicode_digit_of_char split: option.splits)
  next
    case False
    then show ?thesis
      by (simp add: ustr_of_def unicode_digit_of_char)
  qed
qed

lemma JOB_TAG_RE_match_u_ustr_of:
  "JOB_TAG_RE_match_u (ustr_of s) = map_option ustr_of (JOB_TAG_RE_match s)"
proof (cases s)
  case Nil
  then show ?thesis by (simp add: JOB_TAG_RE_match_u_def JOB_TAG_RE_match_def ustr_of_def)
next
  case (Cons c rest)
  have r: "map of_char rest = ustr_of rest" by (simp add: ustr_of_def)
  show ?thesis
    unfolding Cons JOB_TAG_RE_match_u_def JOB_TAG_RE_match_def
    by (auto simp: ustr_of_def [of "c # rest"] r digits_u_ustr_of of_char_eq_35 of_char_eq_63
        ustr_of_def [of "_ # _"] ustr_of_def [of "[]"] split: option.splits list.splits)
qed

lemma ustr_of_simps: "ustr_of [] = []" "ustr_of (c # cs) = of_char c # ustr_of cs"
  by (simp_all add: ustr_of_def)

lemma JOB_TAG_RE_search_u_ustr_of:
  "JOB_TAG_RE_search_u (ustr_of s) = map_option ustr_of (JOB_TAG_RE_search s)"
proof (induction s)
  case Nil
  then show ?case by (simp add: ustr_of_simps)
next
  case (Cons c cs)
  have "JOB_TAG_RE_search_u (ustr_of (c # cs)) =
      (case JOB_TAG_RE_match_u (ustr_of (c # cs)) of
         Some g \<Rightarrow> Some g | None \<Rightarrow> JOB_TAG_RE_search_u (ustr_of cs))"
    by (simp add: ustr_of_simps)
  with Cons show ?case
    by (simp add: JOB_TAG_RE_match_u_ustr_of split: option.splits)
qed

text \<open>
  Claim C6. For every message text (any Unicode text): the text is job-tagged exactly when it
  contains \<^verbatim>\<open>#\<close>, five decimal digits and, immediately after them, \<^verbatim>\<open>?\<close>; the search returns
  the digits of the leftmost such occurrence. A decimal digit is what \<^verbatim>\<open>\d\<close> matches, a
  character of the Unicode category Nd: below U+0660 these are exactly \<^verbatim>\<open>0\<close>..\<^verbatim>\<open>9\<close>, and the
  Arabic-Indic and the fullwidth digits are among the others. \<^verbatim>\<open>Please confirm #12345?\<close>
  gives \<^verbatim>\<open>12345\<close>; four digits, six digits, a space before the question mark, a question
  mark, a letter or a superscript two in a digit position give no match. On the texts of the
  router model the search is the one defined for them.
\<close>

theorem job_tag_detection:
  "(JOB_TAG_RE_search_u msg \<noteq> None \<longleftrightarrow> (\<exists>pre ds' post. job_tag_at msg pre ds' post))
   \<and> (JOB_TAG_RE_search_u msg = Some ds \<longleftrightarrow> first_job_tag msg ds)
   \<and> (c < 1632 \<longrightarrow> (unicode_digit c \<longleftrightarrow> 48 \<le> c \<and> c \<le> 57))
   \<and> JOB_TAG_RE_search_u (ustr_of ''Please confirm #12345?'') = Some (ustr_of ''12345'')
   \<and> JOB_TAG_RE_search_u (ustr_of ''#1234?'') = None
   \<and> JOB_TAG_RE_search_u (ustr_of ''#123456?'') = None
   \<and> JOB_TAG_RE_search_u (ustr_of ''#12345 ?'') = None
   \<and> JOB_TAG_RE_search_u (ustr_of ''#1234??'') = None
   \<and> JOB_TAG_RE_search_u (ustr_of ''#12a45?'') = None
   \<and> JOB_TAG_RE_search_u [35, 49, 50, 51, 52, 178, 63] = None
   \<and> JOB_TAG_RE_search_u [35, 1633, 1634, 1635, 1636, 1637, 63] = Some [1633, 1634, 1635, 1636, 1637]
   \<and> JOB_TAG_RE_search_u [35, 65297, 65298, 65299, 65300, 65301, 63]
        = Some [65297, 65298, 65299, 65300, 65301]
   \<and> JOB_TAG_RE_search_u (ustr_of s) = map_option ustr_of (JOB_TAG_RE_search s)"
proof (intro conjI impI)
  show "JOB_TAG_RE_search_u msg \<noteq> None \<longleftrightarrow> (\<exists>pre ds' post. job_tag_at msg pre ds' post)"
    by (simp add: JOB_TAG_RE_search_u_None)
  show "JOB_TAG_RE_search_u msg = Some ds \<longleftrightarrow> first_job_tag msg ds"
    by (rule JOB_TAG_RE_search_u_Some)
  show "unicode_digit c \<longleftrightarrow> 48 \<le> c \<and> c \<le> 57" if "c < 1632"
    using that by (rule unicode_digit_low)
  show "JOB_TAG_RE_search_u (ustr_of ''Please confirm #12345?'') = Some (ustr_of ''12345'')"
    by (rule ex_ascii)
  show "JOB_TAG_RE_search_u (ustr_of ''#1234?'') = None"
    and "JOB_TAG_RE_search_u (ustr_of ''#123456?'') = None"
    and "JOB_TAG_RE_search_u (ustr_of ''#12345 ?'') = None"
    and "JOB_TAG_RE_search_u (ustr_of ''#1234??'') = None"
    and "JOB_TAG_RE_search_u (ustr_of ''#12a45?'') = None"
    and "JOB_TAG_RE_search_u [35, 49, 50, 51, 52, 178, 63] = None"
    by (rule ex_none)+
  show "JOB_TAG_RE_search_u [35, 1633, 1634, 1635, 1636, 1637, 63] = Some [1633, 1634, 1635, 1636, 1637]"
    and "JOB_TAG_RE_search_u [35, 65297, 65298, 65299, 65300, 65301, 63]
        = Some [65297, 65298, 65299, 65300, 65301]"
    by (rule ex_unicode)+
  show "JOB_TAG_RE_search_u (ustr_of s) = map_option ustr_of (JOB_TAG_RE_search s)"
    by (rule JOB_TAG_RE_search_u_ustr_of)
qed

text \<open>The leftmost occurrence in a text with two tags, and a character below U+0660 that is
  no digit.\<close>

theorem job_tag_detection_witness:
  "first_job_tag (ustr_of ''a#1#12345?#99999?'') (ustr_of ''12345'')
   \<and> (\<exists>pre ds' post. job_tag_at (ustr_of ''a#1#12345?#99999?'') pre ds' post)
   \<and> (178 :: nat) < 1632 \<and> \<not> unicode_digit 178"
proof -
  have s: "JOB_TAG_RE_search_u (ustr_of ''a#1#12345?#99999?'') = Some (ustr_of ''12345'')"
    by (simp add: ustr_of_def JOB_TAG_RE_match_u_def digits_u_Cons digits_u_Nil unicode_digit_low)
  note t = job_tag_detection [of "ustr_of ''a#1#12345?#99999?''" "ustr_of ''12345''" 178]
  from t s have a: "first_job_tag (ustr_of ''a#1#12345?#99999?'') (ustr_of ''12345'')"
    by blast
  from t s have b: "\<exists>pre ds' post. job_tag_at (ustr_of ''a#1#12345?#99999?'') pre ds' post"
    by (metis option.distinct(1))
  have l: "(178 :: nat) < 1632" by simp
  with t have d: "\<not> unicode_digit 178"
    by simp
  from a b l d show ?thesis by (intro conjI)
qed

section \<open>Relay memory: proofs\<close>

lemma restrict_upd_None: "(m(k := None)) |` (- A) = m |` (- insert k A)"
  by (auto simp: restrict_map_def fun_eq_iff)

lemma restrict_absent: "m k = None \<Longrightarrow> m |` (- A) = m |` (- insert k A)"
  by (auto simp: restrict_map_def fun_eq_iff)

lemma restrict_none: "m |` (- {}) = m"
  by (simp add: restrict_map_def)

lemma ttl_evict_drop:
  "\<exists>n. ttl_evict now t m ks = (m |` (- set (take n ks)), drop n ks)"
proof (induction ks arbitrary: m)
  case Nil
  have "ttl_evict now t m [] = (m |` (- set (take 0 [])), drop 0 [])"
    by (simp add: restrict_map_def)
  then show ?case by blast
next
  case (Cons k ks)
  have step: "\<exists>n. (m' |` (- insert k (set (take j ks))), drop j ks)
      = (m' |` (- set (take n (k # ks))), drop n (k # ks))" for m' :: "string \<rightharpoonup> relay_entry" and j
    by (rule exI [of _ "Suc j"]) simp
  show ?case
  proof (cases "m k")
    case None
    from Cons.IH [of m] obtain n where n: "ttl_evict now t m ks = (m |` (- set (take n ks)), drop n ks)"
      by blast
    have "ttl_evict now t m (k # ks) = ttl_evict now t m ks"
      using None by simp
    also note n
    also have "m |` (- set (take n ks)) = m |` (- insert k (set (take n ks)))"
      using None by (rule restrict_absent)
    finally show ?thesis using step [of m n] by simp
  next
    case (Some v)
    show ?thesis
    proof (cases "now - created_at v > t")
      case True
      from Cons.IH [of "m(k := None)"] obtain n where
        n: "ttl_evict now t (m(k := None)) ks = ((m(k := None)) |` (- set (take n ks)), drop n ks)"
        by blast
      have "ttl_evict now t m (k # ks) = ttl_evict now t (m(k := None)) ks"
        using Some True by simp
      also note n
      also note restrict_upd_None
      finally show ?thesis using step [of m n] by simp
    next
      case False
      with Some have "ttl_evict now t m (k # ks) = (m |` (- set (take 0 (k # ks))), drop 0 (k # ks))"
        by (simp add: restrict_map_def)
      then show ?thesis by blast
    qed
  qed
qed

lemma size_evict_drop:
  "size_evict mx m ks = (m |` (- set (take (length ks - mx) ks)), drop (length ks - mx) ks)"
proof (induction ks arbitrary: m)
  case Nil
  then show ?case by (simp add: restrict_map_def)
next
  case (Cons k ks)
  show ?case
  proof (cases "length (k # ks) > mx")
    case True
    then have d: "length (k # ks) - mx = Suc (length ks - mx)" by simp
    have "size_evict mx m (k # ks) = size_evict mx (m(k := None)) ks"
      using True by simp
    also have "\<dots> = ((m(k := None)) |` (- set (take (length ks - mx) ks)), drop (length ks - mx) ks)"
      by (rule Cons.IH)
    also note restrict_upd_None
    finally show ?thesis unfolding d by simp
  next
    case False
    then show ?thesis by (simp add: restrict_map_def)
  qed
qed


lemma evict_shape:
  "\<exists>n. RelayMemory_evict rm now =
     rm\<lparr>rm_map := rm_map rm |` (- set (take n (rm_order rm))), rm_order := drop n (rm_order rm)\<rparr>
     \<and> length (drop n (rm_order rm)) \<le> max_items rm"
proof -
  obtain n1 where n1: "ttl_evict now (ttl rm) (rm_map rm) (rm_order rm)
      = (rm_map rm |` (- set (take n1 (rm_order rm))), drop n1 (rm_order rm))"
    using ttl_evict_drop by blast
  define o1 where "o1 = drop n1 (rm_order rm)"
  define d where "d = length o1 - max_items rm"
  have s: "size_evict (max_items rm) (rm_map rm |` (- set (take n1 (rm_order rm)))) o1
      = (rm_map rm |` (- set (take n1 (rm_order rm))) |` (- set (take d o1)), drop d o1)"
    unfolding d_def by (rule size_evict_drop)
  have m: "rm_map rm |` (- set (take n1 (rm_order rm))) |` (- set (take d o1))
      = rm_map rm |` (- set (take (n1 + d) (rm_order rm)))"
    unfolding o1_def by (auto simp: restrict_map_def fun_eq_iff take_add)
  have o: "drop d o1 = drop (n1 + d) (rm_order rm)"
    unfolding o1_def by (simp add: add.commute)
  have l: "length (drop d o1) \<le> max_items rm"
    unfolding d_def by simp
  have "RelayMemory_evict rm now =
     rm\<lparr>rm_map := rm_map rm |` (- set (take (n1 + d) (rm_order rm))),
        rm_order := drop (n1 + d) (rm_order rm)\<rparr>"
    unfolding RelayMemory_evict_def n1 using s m o by (simp add: o1_def)
  with l o show ?thesis by metis
qed

lemma save_map_shape:
  "\<exists>n. RelayMemory_save_map rm job ich its k tc tn =
     rm\<lparr>rm_map := ((rm_map rm)(k \<mapsto> (job, ich, its, tc))) |` (- set (take n (rm_order rm @ [k]))),
        rm_order := drop n (rm_order rm @ [k])\<rparr>
     \<and> length (drop n (rm_order rm @ [k])) \<le> max_items rm"
  using evict_shape [of "rm\<lparr>rm_map := (rm_map rm)(k \<mapsto> (job, ich, its, tc)), rm_order := rm_order rm @ [k]\<rparr>" tn]
  unfolding RelayMemory_save_map_def by simp

lemma dom_restrict_drop:
  "dom m \<subseteq> set ks \<Longrightarrow> dom (m |` (- set (take n ks))) \<subseteq> set (drop n ks)"
proof
  fix x assume d: "dom m \<subseteq> set ks" and x: "x \<in> dom (m |` (- set (take n ks)))"
  then have "x \<in> set ks" "x \<notin> set (take n ks)" by auto
  moreover have "set ks = set (take n ks) \<union> set (drop n ks)"
    by (metis append_take_drop_id set_append)
  ultimately show "x \<in> set (drop n ks)" by blast
qed

lemma relay_inv_save:
  assumes "relay_inv rm"
  shows "relay_inv (RelayMemory_save_map rm job ich its k tc tn)"
proof -
  obtain n where n: "RelayMemory_save_map rm job ich its k tc tn =
     rm\<lparr>rm_map := ((rm_map rm)(k \<mapsto> (job, ich, its, tc))) |` (- set (take n (rm_order rm @ [k]))),
        rm_order := drop n (rm_order rm @ [k])\<rparr>"
    using save_map_shape by blast
  from assms have "dom ((rm_map rm)(k \<mapsto> (job, ich, its, tc))) \<subseteq> set (rm_order rm @ [k])"
    by (auto simp: relay_inv_def)
  from dom_restrict_drop [OF this, of n] assms show ?thesis
    unfolding n relay_inv_def by simp
qed

lemma relay_inv_run: "relay_inv rm \<Longrightarrow> relay_inv (run_saves rm cs)"
proof (induction cs rule: rev_induct)
  case Nil
  then show ?case by (simp add: run_saves_def)
next
  case (snoc c cs)
  obtain job ich its k tc tn where c: "c = (job, ich, its, k, tc, tn)"
    by (cases c) auto
  from snoc show ?case
    by (simp add: run_saves_def c relay_inv_save)
qed

lemma relay_inv_init: "relay_inv RELAY_MEM"
  by (simp add: relay_inv_def RELAY_MEM_def)

lemma save_map_card:
  assumes "relay_inv rm"
  shows "finite (dom (rm_map (RelayMemory_save_map rm job ich its k tc tn)))
    \<and> card (dom (rm_map (RelayMemory_save_map rm job ich its k tc tn))) \<le> 30"
proof -
  let ?rm' = "RelayMemory_save_map rm job ich its k tc tn"
  obtain n where n: "?rm' =
     rm\<lparr>rm_map := ((rm_map rm)(k \<mapsto> (job, ich, its, tc))) |` (- set (take n (rm_order rm @ [k]))),
        rm_order := drop n (rm_order rm @ [k])\<rparr>"
    and l: "length (drop n (rm_order rm @ [k])) \<le> max_items rm"
    using save_map_shape by blast
  from l n assms have len: "length (rm_order ?rm') \<le> 30"
    by (simp add: relay_inv_def)
  from relay_inv_save [OF assms] have sub: "dom (rm_map ?rm') \<subseteq> set (rm_order ?rm')"
    by (simp add: relay_inv_def)
  then have fin: "finite (dom (rm_map ?rm'))"
    by (rule finite_subset) simp
  have "card (dom (rm_map ?rm')) \<le> card (set (rm_order ?rm'))"
    using sub by (intro card_mono) simp_all
  also have "\<dots> \<le> length (rm_order ?rm')" by (rule card_length)
  finally show ?thesis using fin len by simp
qed


lemma order_created_cong:
  "(\<And>k. k \<in> set ks \<Longrightarrow> m k = m' k) \<Longrightarrow> order_created m ks = order_created m' ks"
  by (simp add: order_created_def)

lemma ttl_evict_no_expired:
  "in_sync m ks \<Longrightarrow> fst (ttl_evict now t m ks) k' = Some v' \<Longrightarrow> \<not> (now - created_at v' > t)"
proof (induction ks arbitrary: m)
  case Nil
  then show ?case by (auto simp: in_sync_def)
next
  case (Cons k ks)
  from Cons.prems(1) have dk: "k \<notin> set ks" "distinct ks" and dom: "dom m = insert k (set ks)"
    and srt: "sorted (order_created m (k # ks))"
    by (simp_all add: in_sync_def)
  from dom have "k \<in> dom m" by simp
  then obtain v where v: "m k = Some v" by blast
  show ?case
  proof (cases "now - created_at v > t")
    case True
    have e: "order_created (m(k := None)) ks = order_created m ks"
      using dk by (intro order_created_cong) auto
    from srt have "sorted (order_created m ks)"
      by (simp add: order_created_def)
    then have "sorted (order_created (m(k := None)) ks)"
      unfolding e .
    moreover have "dom (m(k := None)) = set ks"
      using dom dk by auto
    ultimately have "in_sync (m(k := None)) ks"
      using dk by (simp add: in_sync_def)
    moreover have "fst (ttl_evict now t (m(k := None)) ks) k' = Some v'"
      using Cons.prems(2) v True by simp
    ultimately show ?thesis by (rule Cons.IH)
  next
    case False
    with Cons.prems(2) v have mk': "m k' = Some v'" by simp
    show ?thesis
    proof (cases "k' = k")
      case True
      with mk' v False show ?thesis by simp
    next
      case False
      with mk' dom have "k' \<in> set ks" by auto
      with srt have "created_at (the (m k)) \<le> created_at (the (m k'))"
        by (auto simp: order_created_def)
      with v mk' \<open>\<not> t < now - created_at v\<close> show ?thesis by simp
    qed
  qed
qed

lemma in_sync_drop:
  assumes "in_sync m ks"
  shows "in_sync (m |` (- set (take n ks))) (drop n ks)"
proof -
  from assms have d: "distinct ks" and dom: "dom m = set ks" and s: "sorted (order_created m ks)"
    by (simp_all add: in_sync_def)
  have ks: "ks = take n ks @ drop n ks" by simp
  from d have disj: "set (take n ks) \<inter> set (drop n ks) = {}"
    by (metis ks distinct_append)
  have "set ks = set (take n ks) \<union> set (drop n ks)"
    by (metis ks set_append)
  with dom disj have dom': "dom (m |` (- set (take n ks))) = set (drop n ks)"
    by auto
  have "order_created (m |` (- set (take n ks))) (drop n ks) = order_created m (drop n ks)"
    using disj by (intro order_created_cong) (auto simp: restrict_map_def)
  also have "\<dots> = drop n (order_created m ks)"
    by (simp add: order_created_def drop_map)
  finally have "sorted (order_created (m |` (- set (take n ks))) (drop n ks))"
    using s by (simp add: sorted_wrt_drop)
  with d dom' show ?thesis by (simp add: in_sync_def)
qed

lemma in_sync_append:
  assumes "in_sync m ks" and "k \<notin> set ks"
    and "\<And>x v. m x = Some v \<Longrightarrow> created_at v \<le> tc"
  shows "in_sync (m(k \<mapsto> (job, ich, its, tc))) (ks @ [k])"
proof -
  from assms(1) have d: "distinct ks" and dom: "dom m = set ks" and s: "sorted (order_created m ks)"
    by (simp_all add: in_sync_def)
  have "order_created (m(k \<mapsto> (job, ich, its, tc))) ks = order_created m ks"
    using assms(2) by (intro order_created_cong) auto
  then have oc: "order_created (m(k \<mapsto> (job, ich, its, tc))) (ks @ [k]) = order_created m ks @ [tc]"
    by (simp add: order_created_def created_at_def)
  have "x \<le> tc" if "x \<in> set (order_created m ks)" for x
  proof -
    from that obtain y where y: "y \<in> set ks" "x = created_at (the (m y))"
      by (auto simp: order_created_def)
    with dom have "y \<in> dom m" by simp
    then obtain v where "m y = Some v" by blast
    with y assms(3) show ?thesis by fastforce
  qed
  with s have "sorted (order_created m ks @ [tc])"
    by (simp add: sorted_append)
  with oc d dom assms(2) show ?thesis
    by (simp add: in_sync_def)
qed


lemma run_saves_snoc: "run_saves rm (cs @ [c]) = apply_save (run_saves rm cs) c"
  by (simp add: run_saves_def)

lemma clock_readings_snoc:
  "clock_readings (cs @ [(job, ich, its, k, tc, tn)]) = clock_readings cs @ [tc, tn]"
  by (simp add: clock_readings_def)

lemma run_sync_created:
  assumes "run_sync cs rm" and "rm_map rm x = Some v"
  shows "created_at v \<in> set (clock_readings cs)"
proof -
  from assms have "x \<in> dom (rm_map rm)" by blast
  with assms(1) have "x \<in> set (rm_order rm)"
    by (simp add: run_sync_def in_sync_def)
  with assms(1) have "created_at (the (rm_map rm x)) \<in> set (clock_readings cs)"
    by (simp add: run_sync_def list_all_iff)
  with assms(2) show ?thesis by simp
qed

lemma pre_evict_in_sync:
  assumes inv: "run_sync cs rm"
    and fresh: "fresh_keys (cs @ [(job, ich, its, k, tc, tn)])"
    and timed: "well_timed (cs @ [(job, ich, its, k, tc, tn)])"
  shows "in_sync ((rm_map rm)(k \<mapsto> (job, ich, its, tc))) (rm_order rm @ [k])"
proof (rule in_sync_append)
  from inv show "in_sync (rm_map rm) (rm_order rm)"
    by (simp add: run_sync_def)
  from fresh have "k \<notin> set (map call_key cs)"
    by (simp add: fresh_keys_def)
  with inv show "k \<notin> set (rm_order rm)"
    by (auto simp: run_sync_def)
  fix x v assume "rm_map rm x = Some v"
  with inv have "created_at v \<in> set (clock_readings cs)"
    by (rule run_sync_created)
  with timed show "created_at v \<le> tc"
    by (simp add: well_timed_def clock_readings_snoc sorted_append)
qed

lemma run_sync_step:
  assumes inv: "run_sync cs rm"
    and fresh: "fresh_keys (cs @ [(job, ich, its, k, tc, tn)])"
    and timed: "well_timed (cs @ [(job, ich, its, k, tc, tn)])"
  shows "run_sync (cs @ [(job, ich, its, k, tc, tn)]) (RelayMemory_save_map rm job ich its k tc tn)"
proof -
  let ?m0 = "(rm_map rm)(k \<mapsto> (job, ich, its, tc))" and ?o0 = "rm_order rm @ [k]"
  let ?rm' = "RelayMemory_save_map rm job ich its k tc tn"
  let ?cs' = "cs @ [(job, ich, its, k, tc, tn)]"
  obtain n where n: "?rm' = rm\<lparr>rm_map := ?m0 |` (- set (take n ?o0)), rm_order := drop n ?o0\<rparr>"
    using save_map_shape by blast
  have m': "rm_map ?rm' = ?m0 |` (- set (take n ?o0))" and o': "rm_order ?rm' = drop n ?o0"
    unfolding n by simp_all
  have sync0: "in_sync ?m0 ?o0"
    using inv fresh timed by (rule pre_evict_in_sync)
  then have sync: "in_sync (rm_map ?rm') (rm_order ?rm')"
    unfolding m' o' by (rule in_sync_drop)
  have "set (drop n ?o0) \<subseteq> set ?o0" by (rule set_drop_subset)
  also have "\<dots> \<subseteq> set (map call_key ?cs')"
    using inv by (auto simp: run_sync_def)
  finally have sub: "set (rm_order ?rm') \<subseteq> set (map call_key ?cs')"
    unfolding o' .
  have cr: "created_at (the (rm_map ?rm' x)) \<in> set (clock_readings ?cs')" if "x \<in> set (rm_order ?rm')" for x
  proof -
    from that sync have "x \<in> dom (rm_map ?rm')" by (simp add: in_sync_def)
    then obtain v where v: "rm_map ?rm' x = Some v" by blast
    then have v0: "?m0 x = Some v"
      unfolding m' by (simp add: restrict_map_def split: if_splits)
    have "created_at v \<in> set (clock_readings ?cs')"
    proof (cases "x = k")
      case True
      with v0 show ?thesis by (auto simp: clock_readings_snoc created_at_def)
    next
      case False
      with v0 have "rm_map rm x = Some v" by simp
      with inv have "created_at v \<in> set (clock_readings cs)" by (rule run_sync_created)
      then show ?thesis by (simp add: clock_readings_snoc)
    qed
    with v show ?thesis by simp
  qed
  from inv have "relay_inv rm" by (simp add: run_sync_def)
  then have "relay_inv ?rm'" by (rule relay_inv_save)
  with sync sub cr show ?thesis
    by (simp add: run_sync_def list_all_iff)
qed

lemma fresh_keys_butlast: "fresh_keys (cs @ [c]) \<Longrightarrow> fresh_keys cs"
  by (simp add: fresh_keys_def)

lemma well_timed_butlast: "well_timed (cs @ [c]) \<Longrightarrow> well_timed cs"
  by (simp add: well_timed_def clock_readings_def sorted_append)

lemma run_sync_run:
  "fresh_keys cs \<Longrightarrow> well_timed cs \<Longrightarrow> run_sync cs (run_saves RELAY_MEM cs)"
proof (induction cs rule: rev_induct)
  case Nil
  then show ?case
    by (simp add: run_saves_def run_sync_def in_sync_def order_created_def RELAY_MEM_def relay_inv_def)
next
  case (snoc c cs)
  obtain job ich its k tc tn where c: "c = (job, ich, its, k, tc, tn)"
    by (cases c) auto
  from snoc.prems have "fresh_keys cs" "well_timed cs"
    by (auto dest: fresh_keys_butlast well_timed_butlast)
  then have "run_sync cs (run_saves RELAY_MEM cs)" by (rule snoc.IH)
  from run_sync_step [OF this snoc.prems [unfolded c]] show ?case
    by (simp add: c run_saves_snoc)
qed

lemma no_expired_after_save:
  assumes fresh: "fresh_keys (cs @ [(job, ich, its, k, tc, tn)])"
    and timed: "well_timed (cs @ [(job, ich, its, k, tc, tn)])"
    and v': "rm_map (run_saves RELAY_MEM (cs @ [(job, ich, its, k, tc, tn)])) k' = Some v'"
  shows "\<not> (tn - created_at v' > 259200)"
proof -
  let ?rm = "run_saves RELAY_MEM cs"
  let ?m0 = "(rm_map ?rm)(k \<mapsto> (job, ich, its, tc))" and ?o0 = "rm_order ?rm @ [k]"
  have inv: "run_sync cs ?rm"
    using fresh timed by (intro run_sync_run) (auto dest: fresh_keys_butlast well_timed_butlast)
  then have t: "ttl ?rm = 259200" by (simp add: run_sync_def relay_inv_def)
  have sync0: "in_sync ?m0 ?o0"
    using inv fresh timed by (rule pre_evict_in_sync)
  obtain m1 o1 where e: "ttl_evict tn (ttl ?rm) ?m0 ?o0 = (m1, o1)"
    by (cases "ttl_evict tn (ttl ?rm) ?m0 ?o0") auto
  have "rm_map (RelayMemory_save_map ?rm job ich its k tc tn)
      = m1 |` (- set (take (length o1 - max_items ?rm) o1))"
    by (simp add: RelayMemory_save_map_def RelayMemory_evict_def e size_evict_drop)
  with v' have "m1 k' = Some v'"
    by (simp add: run_saves_snoc restrict_map_def split: if_splits)
  with e have "fst (ttl_evict tn (ttl ?rm) ?m0 ?o0) k' = Some v'" by simp
  from ttl_evict_no_expired [OF sync0 this] t show ?thesis by simp
qed


lemma ttl_evict_fresh_front:
  "ks \<noteq> [] \<Longrightarrow> m (hd ks) = Some v \<Longrightarrow> \<not> (now - created_at v > t) \<Longrightarrow> ttl_evict now t m ks = (m, ks)"
  by (cases ks) auto

lemma within_window_butlast: "within_window t0 (cs @ [c]) \<Longrightarrow> within_window t0 cs"
  by (simp add: within_window_def clock_readings_def)

lemma window_step:
  assumes o: "rm_order rm = drop (length cs - 30) (map call_key cs)"
    and dom: "dom (rm_map rm) = set (rm_order rm)"
    and lo: "\<forall>x v. rm_map rm x = Some v \<longrightarrow> t0 \<le> created_at v"
    and inv: "relay_inv rm"
    and fresh: "fresh_keys (cs @ [(job, ich, its, k, tc, tn)])"
    and win: "within_window t0 (cs @ [(job, ich, its, k, tc, tn)])"
  shows "rm_order (RelayMemory_save_map rm job ich its k tc tn)
           = drop (length (cs @ [(job, ich, its, k, tc, tn)]) - 30) (map call_key (cs @ [(job, ich, its, k, tc, tn)]))
       \<and> dom (rm_map (RelayMemory_save_map rm job ich its k tc tn))
           = set (rm_order (RelayMemory_save_map rm job ich its k tc tn))
       \<and> (\<forall>x v. rm_map (RelayMemory_save_map rm job ich its k tc tn) x = Some v \<longrightarrow> t0 \<le> created_at v)"
proof -
  let ?m0 = "(rm_map rm)(k \<mapsto> (job, ich, its, tc))" and ?o0 = "rm_order rm @ [k]"
  let ?rm' = "RelayMemory_save_map rm job ich its k tc tn"
  let ?K = "map call_key cs @ [k]"
  from win have tc: "t0 \<le> tc" and tn: "tn \<le> t0 + 259200"
    by (simp_all add: within_window_def clock_readings_snoc)
  from inv have mx: "max_items rm = 30" and tt: "ttl rm = 259200"
    by (simp_all add: relay_inv_def)
  have lo0: "t0 \<le> created_at v" if "?m0 x = Some v" for x v
  proof (cases "x = k")
    case True
    with that tc show ?thesis by (auto simp: created_at_def)
  next
    case False
    with that have "rm_map rm x = Some v" by simp
    with lo show ?thesis by blast
  qed
  have dom0: "dom ?m0 = set ?o0" using dom by auto
  then have "hd ?o0 \<in> dom ?m0" by (metis hd_in_set snoc_eq_iff_butlast)
  then obtain v where v: "?m0 (hd ?o0) = Some v" by blast
  from lo0 [OF v] tn have "\<not> (tn - created_at v > ttl rm)"
    unfolding tt by simp
  with v have e: "ttl_evict tn (ttl rm) ?m0 ?o0 = (?m0, ?o0)"
    by (intro ttl_evict_fresh_front) simp_all
  define d where "d = length ?o0 - 30"
  have m': "rm_map ?rm' = ?m0 |` (- set (take d ?o0))" and o': "rm_order ?rm' = drop d ?o0"
    unfolding d_def by (simp_all add: RelayMemory_save_map_def RelayMemory_evict_def e size_evict_drop mx)
  have o0: "?o0 = drop (length cs - 30) ?K"
    unfolding o by simp
  have "drop d ?o0 = drop (d + (length cs - 30)) ?K"
    unfolding o0 by (simp only: drop_drop)
  also have "d + (length cs - 30) = length (cs @ [(job, ich, its, k, tc, tn)]) - 30"
    unfolding d_def o by simp
  finally have order: "rm_order ?rm' = drop (length (cs @ [(job, ich, its, k, tc, tn)]) - 30)
      (map call_key (cs @ [(job, ich, its, k, tc, tn)]))"
    unfolding o' by simp
  from fresh have "distinct ?K" by (simp add: fresh_keys_def)
  then have dist: "distinct ?o0" unfolding o0 by (rule distinct_drop)
  have split: "?o0 = take d ?o0 @ drop d ?o0" by (rule append_take_drop_id [symmetric])
  from dist have disj: "set (take d ?o0) \<inter> set (drop d ?o0) = {}"
    by (metis split distinct_append)
  have "set ?o0 = set (take d ?o0) \<union> set (drop d ?o0)"
    by (metis split set_append)
  with dom0 disj have "dom (?m0 |` (- set (take d ?o0))) = set (drop d ?o0)"
    by auto
  then have dom': "dom (rm_map ?rm') = set (rm_order ?rm')"
    unfolding m' o' .
  have "t0 \<le> created_at v" if "rm_map ?rm' x = Some v" for x v
  proof -
    from that have "?m0 x = Some v"
      unfolding m' by (simp add: restrict_map_def split: if_splits)
    then show ?thesis by (rule lo0)
  qed
  with order dom' show ?thesis by blast
qed

lemma window_run:
  "fresh_keys cs \<Longrightarrow> within_window t0 cs \<Longrightarrow>
     rm_order (run_saves RELAY_MEM cs) = drop (length cs - 30) (map call_key cs)
     \<and> dom (rm_map (run_saves RELAY_MEM cs)) = set (rm_order (run_saves RELAY_MEM cs))
     \<and> (\<forall>x v. rm_map (run_saves RELAY_MEM cs) x = Some v \<longrightarrow> t0 \<le> created_at v)"
proof (induction cs rule: rev_induct)
  case Nil
  then show ?case by (simp add: run_saves_def RELAY_MEM_def)
next
  case (snoc c cs)
  obtain job ich its k tc tn where c: "c = (job, ich, its, k, tc, tn)"
    by (cases c) auto
  from snoc.prems have "fresh_keys cs" "within_window t0 cs"
    by (auto dest: fresh_keys_butlast within_window_butlast)
  then have ih: "rm_order (run_saves RELAY_MEM cs) = drop (length cs - 30) (map call_key cs)"
    "dom (rm_map (run_saves RELAY_MEM cs)) = set (rm_order (run_saves RELAY_MEM cs))"
    "\<forall>x v. rm_map (run_saves RELAY_MEM cs) x = Some v \<longrightarrow> t0 \<le> created_at v"
    using snoc.IH by blast+
  have inv: "relay_inv (run_saves RELAY_MEM cs)"
    using relay_inv_init by (rule relay_inv_run)
  from window_step [OF ih inv snoc.prems [unfolded c]]
  show ?case unfolding c run_saves_snoc apply_save.simps .
qed

lemma thirty_one_keys:
  assumes "length cs = 31" and fresh: "fresh_keys cs" and win: "within_window t0 cs"
  shows "dom (rm_map (run_saves RELAY_MEM cs)) = set (map call_key (tl cs))
    \<and> card (dom (rm_map (run_saves RELAY_MEM cs))) = 30
    \<and> call_key (hd cs) \<notin> dom (rm_map (run_saves RELAY_MEM cs))"
proof -
  from assms(1) obtain c cs' where cs: "cs = c # cs'" and l: "length cs' = 30"
    by (cases cs) auto
  from window_run [OF fresh win] assms(1)
  have d: "dom (rm_map (run_saves RELAY_MEM cs)) = set (map call_key (tl cs))"
    by (simp add: cs)
  from fresh have "distinct (map call_key cs')" and "call_key c \<notin> set (map call_key cs')"
    by (simp_all add: fresh_keys_def cs)
  then have "card (set (map call_key cs')) = length (map call_key cs')"
    and n: "call_key c \<notin> set (map call_key cs')"
    by (simp_all only: distinct_card not_False_eq_True)
  with l have "card (set (map call_key (tl cs))) = 30"
    by (simp add: cs)
  with d n show ?thesis
    by (simp only: cs list.sel) simp

qed


lemma evict_ttl_then_size:
  "RelayMemory_evict r now =
     (case ttl_evict now (ttl r) (rm_map r) (rm_order r) of
        (m1, o1) \<Rightarrow>
          r\<lparr>rm_map := m1 |` (- set (take (length o1 - max_items r) o1)),
            rm_order := drop (length o1 - max_items r) o1\<rparr>)"
  by (simp add: RelayMemory_evict_def size_evict_drop split: prod.splits)

text \<open>
  Claim C7, as amended. Let \<open>rm\<close> be a cache reached from the program's empty cache by any
  sequence of saves, and \<open>rm'\<close> the cache after one more save.
  \<^item> The dict of \<open>rm'\<close> holds at most 30 entries.
  \<^item> The deque of \<open>rm'\<close> is the deque of \<open>rm\<close> with the saved key appended, minus a prefix;
    the dict loses exactly the keys of that prefix. So entries leave from the front only, and a
    key that is saved again keeps its earlier place (it is appended a second time).
  \<^item> Eviction is TTL eviction followed by capacity eviction, which drops exactly the excess
    over \<open>max_items\<close> from the front of what TTL eviction left; TTL eviction itself removes
    a prefix.
  \<^item> When the keys saved so far are pairwise different and the clock never ran backwards, no
    entry older than 259200 seconds at the eviction of that save remains.
  \<^item> 31 saves with pairwise different keys inside one window of 259200 seconds leave exactly
    30 entries: all keys but the first.
\<close>

theorem relay_eviction_invariant:
  assumes "rm = run_saves RELAY_MEM cs"
    and "rm' = RelayMemory_save_map rm job ich its k tc tn"
  shows "finite (dom (rm_map rm')) \<and> card (dom (rm_map rm')) \<le> 30
    \<and> (\<exists>n. rm_order rm' = drop n (rm_order rm @ [k])
          \<and> rm_map rm' = ((rm_map rm)(k \<mapsto> (job, ich, its, tc))) |` (- set (take n (rm_order rm @ [k]))))
    \<and> RelayMemory_evict r now =
         (case ttl_evict now (ttl r) (rm_map r) (rm_order r) of
            (m1, o1) \<Rightarrow>
              r\<lparr>rm_map := m1 |` (- set (take (length o1 - max_items r) o1)),
                rm_order := drop (length o1 - max_items r) o1\<rparr>)
    \<and> (\<exists>n. ttl_evict now t m ks = (m |` (- set (take n ks)), drop n ks))
    \<and> (fresh_keys (cs @ [(job, ich, its, k, tc, tn)]) \<and> well_timed (cs @ [(job, ich, its, k, tc, tn)])
          \<longrightarrow> (\<forall>k' v'. rm_map rm' k' = Some v' \<longrightarrow> \<not> (tn - created_at v' > 259200)))
    \<and> (length ds = 31 \<and> fresh_keys ds \<and> within_window t0 ds
          \<longrightarrow> dom (rm_map (run_saves RELAY_MEM ds)) = set (map call_key (tl ds))
              \<and> card (dom (rm_map (run_saves RELAY_MEM ds))) = 30
              \<and> call_key (hd ds) \<notin> dom (rm_map (run_saves RELAY_MEM ds)))"
proof (intro conjI impI allI)
  have inv: "relay_inv rm"
    unfolding assms(1) using relay_inv_init by (rule relay_inv_run)
  from save_map_card [OF inv]
  show "finite (dom (rm_map rm'))" and "card (dom (rm_map rm')) \<le> 30"
    unfolding assms(2) by blast+
  from save_map_shape [of rm job ich its k tc tn]
  show "\<exists>n. rm_order rm' = drop n (rm_order rm @ [k])
          \<and> rm_map rm' = ((rm_map rm)(k \<mapsto> (job, ich, its, tc))) |` (- set (take n (rm_order rm @ [k])))"
    unfolding assms(2) by force
  show "RelayMemory_evict r now =
         (case ttl_evict now (ttl r) (rm_map r) (rm_order r) of
            (m1, o1) \<Rightarrow>
              r\<lparr>rm_map := m1 |` (- set (take (length o1 - max_items r) o1)),
                rm_order := drop (length o1 - max_items r) o1\<rparr>)"
    by (rule evict_ttl_then_size)
  show "\<exists>n. ttl_evict now t m ks = (m |` (- set (take n ks)), drop n ks)"
    by (rule ttl_evict_drop)
next
  fix k' v'
  assume "fresh_keys (cs @ [(job, ich, its, k, tc, tn)]) \<and> well_timed (cs @ [(job, ich, its, k, tc, tn)])"
    and "rm_map rm' k' = Some v'"
  then show "\<not> (tn - created_at v' > 259200)"
    unfolding assms using no_expired_after_save [of cs job ich its k tc tn k' v']
    by (simp add: run_saves_snoc)
next
  assume a: "length ds = 31 \<and> fresh_keys ds \<and> within_window t0 ds"
  then have "dom (rm_map (run_saves RELAY_MEM ds)) = set (map call_key (tl ds))
    \<and> card (dom (rm_map (run_saves RELAY_MEM ds))) = 30
    \<and> call_key (hd ds) \<notin> dom (rm_map (run_saves RELAY_MEM ds))"
    using thirty_one_keys [of ds t0] by blast
  then show "dom (rm_map (run_saves RELAY_MEM ds)) = set (map call_key (tl ds))"
    and "card (dom (rm_map (run_saves RELAY_MEM ds))) = 30"
    and "call_key (hd ds) \<notin> dom (rm_map (run_saves RELAY_MEM ds))"
    by blast+
qed

text \<open>
  Claim C7 as stated fails: after saving \<^verbatim>\<open>k1\<close> and \<^verbatim>\<open>k2\<close> at second 0 and \<^verbatim>\<open>k1\<close> again at
  second 300000, the entry of \<^verbatim>\<open>k2\<close> is 300000 seconds old and is still in the dict: the
  re-saved \<^verbatim>\<open>k1\<close> at the front of the deque is fresh, and the TTL loop stops there.
\<close>

theorem relay_ttl_counterexample:
  "rm_map (run_saves RELAY_MEM
      [(''11111'', ''C1'', ''1.0'', ''k1'', 0, 0),
       (''22222'', ''C1'', ''2.0'', ''k2'', 0, 0),
       (''11111'', ''C1'', ''1.0'', ''k1'', 300000, 300000)]) ''k2''
     = Some (''22222'', ''C1'', ''2.0'', 0)
   \<and> (300000 :: real) - created_at (''22222'', ''C1'', ''2.0'', 0) > 259200"
  by (simp add: run_saves_def RelayMemory_save_map_def RelayMemory_evict_def RELAY_MEM_def created_at_def)


text \<open>The hypotheses of the theorem on C7 hold for one save into the empty cache and for the
  sample run of 31 saves.\<close>

theorem relay_eviction_invariant_witness:
  "fresh_keys [(''55555'', ''C1'', ''1.0'', ''k1'', 10, 10)]
   \<and> well_timed [(''55555'', ''C1'', ''1.0'', ''k1'', 10, 10)]
   \<and> rm_map (RelayMemory_save_map RELAY_MEM ''55555'' ''C1'' ''1.0'' ''k1'' 10 10) ''k1''
        = Some (''55555'', ''C1'', ''1.0'', 10)
   \<and> \<not> (10 - created_at (''55555'', ''C1'', ''1.0'', 10) > 259200)
   \<and> card (dom (rm_map (RelayMemory_save_map RELAY_MEM ''55555'' ''C1'' ''1.0'' ''k1'' 10 10))) \<le> 30
   \<and> length wcalls = 31 \<and> fresh_keys wcalls \<and> within_window 0 wcalls
   \<and> card (dom (rm_map (run_saves RELAY_MEM wcalls))) = 30"
proof -
  have a: "RELAY_MEM = run_saves RELAY_MEM []"
    by (simp add: run_saves_def)
  note t = relay_eviction_invariant [OF a refl, where job = "''55555''" and ich = "''C1''"
      and its = "''1.0''" and k = "''k1''" and tc = 10 and tn = 10 and ds = wcalls and ?t0.0 = 0]
  have f: "fresh_keys [(''55555'', ''C1'', ''1.0'', ''k1'', 10, 10)]"
    by (simp add: fresh_keys_def)
  have w: "well_timed [(''55555'', ''C1'', ''1.0'', ''k1'', 10, 10)]"
    by (simp add: well_timed_def clock_readings_def)
  have e: "rm_map (RelayMemory_save_map RELAY_MEM ''55555'' ''C1'' ''1.0'' ''k1'' 10 10) ''k1''
        = Some (''55555'', ''C1'', ''1.0'', 10)"
    by (simp add: RelayMemory_save_map_def RelayMemory_evict_def RELAY_MEM_def created_at_def)
  have w1: "length wcalls = 31"
    by (simp add: wcalls_def)
  have w2: "fresh_keys wcalls"
    by (simp add: wcalls_def fresh_keys_def distinct_map inj_on_def comp_def)
  have w3: "within_window 0 wcalls"
    by (simp add: wcalls_def within_window_def clock_readings_def list_all_iff)
  from t f w e have n: "\<not> (10 - created_at (''55555'', ''C1'', ''1.0'', 10) > 259200)"
    by simp
  from t have c: "card (dom (rm_map (RelayMemory_save_map RELAY_MEM ''55555'' ''C1'' ''1.0'' ''k1'' 10 10))) \<le> 30"
    by blast
  from t w1 w2 w3 have d: "card (dom (rm_map (run_saves RELAY_MEM wcalls))) = 30"
    by blast
  from f w e n c w1 w2 w3 d show ?thesis by blast
qed

text \<open>
  Claim C9. The lookup by client thread timestamp returns the triple of every entry that is in
  the dict, whatever the entry's creation time (the lookup reads no clock), and it leaves the
  cache as it was: only a save removes entries.
\<close>

theorem lookup_ignores_ttl:
  "(rm_map rm k = Some (job, ich, its, created)
      \<longrightarrow> fst (RelayMemory_by_client_thread rm k) = Some (job, ich, its))
   \<and> snd (RelayMemory_by_client_thread rm k) = rm"
  by (simp add: RelayMemory_by_client_thread_def split: option.splits)

text \<open>An entry saved at second 0 is past the TTL at second 300000 and is still returned; after
  a save of another key at that time it is gone.\<close>

theorem lookup_ignores_ttl_witness:
  "rm_map (RelayMemory_save_map RELAY_MEM ''55555'' ''C1'' ''1.0'' ''k1'' 0 0) ''k1''
      = Some (''55555'', ''C1'', ''1.0'', 0)
   \<and> (300000 :: real) - 0 > ttl (RelayMemory_save_map RELAY_MEM ''55555'' ''C1'' ''1.0'' ''k1'' 0 0)
   \<and> fst (RelayMemory_by_client_thread
          (RelayMemory_save_map RELAY_MEM ''55555'' ''C1'' ''1.0'' ''k1'' 0 0) ''k1'')
      = Some (''55555'', ''C1'', ''1.0'')
   \<and> fst (RelayMemory_by_client_thread
          (RelayMemory_save_map
             (snd (RelayMemory_by_client_thread
                (RelayMemory_save_map RELAY_MEM ''55555'' ''C1'' ''1.0'' ''k1'' 0 0) ''k1''))
             ''66666'' ''C1'' ''3.0'' ''k2'' 300000 300000) ''k1'')
      = None"
proof -
  let ?rm = "RelayMemory_save_map RELAY_MEM ''55555'' ''C1'' ''1.0'' ''k1'' 0 0"
  note t = lookup_ignores_ttl [of ?rm "''k1''" "''55555''" "''C1''" "''1.0''" 0]
  have e: "rm_map ?rm ''k1'' = Some (''55555'', ''C1'', ''1.0'', 0)"
    and x: "(300000 :: real) - 0 > ttl ?rm"
    by (simp_all add: RelayMemory_save_map_def RelayMemory_evict_def RELAY_MEM_def created_at_def)
  from t e have l: "fst (RelayMemory_by_client_thread ?rm ''k1'') = Some (''55555'', ''C1'', ''1.0'')"
    by blast
  from t have s: "snd (RelayMemory_by_client_thread ?rm ''k1'') = ?rm"
    by blast
  have "fst (RelayMemory_by_client_thread
          (RelayMemory_save_map ?rm ''66666'' ''C1'' ''3.0'' ''k2'' 300000 300000) ''k1'') = None"
    by (simp add: RelayMemory_by_client_thread_def RelayMemory_save_map_def RelayMemory_evict_def
        RELAY_MEM_def created_at_def)
  with e x l s show ?thesis by simp
qed


section \<open>Credential bootstrap: proofs\<close>

text \<open>
  Claim C3 does not hold of the code. When \<^verbatim>\<open>GOOGLE_CREDS_FILE\<close> names a path \<open>p\<close> other than
  \<^verbatim>\<open>google_creds.json\<close> and neither file exists, the bootstrap writes the decoded blob to
  \<^verbatim>\<open>google_creds.json\<close>, leaves \<open>p\<close> absent, and credential loading, which reads \<open>p\<close>, fails.
\<close>

theorem bootstrap_ignores_creds_file:
  assumes "env ''GOOGLE_CREDS_BASE64'' = Some b" and "b \<noteq> []" and "b64decode b = Some blob"
    and "env ''GOOGLE_CREDS_FILE'' = Some p" and "p \<noteq> ''google_creds.json''"
    and "fs ''google_creds.json'' = None" and "fs p = None"
  shows "bootstrap_creds b64decode env fs = Inr (fs(''google_creds.json'' \<mapsto> blob))
    \<and> (fs(''google_creds.json'' \<mapsto> blob)) p = None
    \<and> get_google_creds env (fs(''google_creds.json'' \<mapsto> blob)) = Inl (FileNotFoundError p)"
  using assms by (simp add: bootstrap_creds_def get_google_creds_def)

theorem bootstrap_ignores_creds_file_witness:
  "bootstrap_creds (\<lambda>b. Some ''{}'')
      [''GOOGLE_CREDS_BASE64'' \<mapsto> ''e30='', ''GOOGLE_CREDS_FILE'' \<mapsto> ''creds/key.json''] Map.empty
     = Inr [''google_creds.json'' \<mapsto> ''{}'']
   \<and> get_google_creds
      [''GOOGLE_CREDS_BASE64'' \<mapsto> ''e30='', ''GOOGLE_CREDS_FILE'' \<mapsto> ''creds/key.json'']
      [''google_creds.json'' \<mapsto> ''{}'']
     = Inl (FileNotFoundError ''creds/key.json'')"
  using bootstrap_ignores_creds_file [of
      "[''GOOGLE_CREDS_BASE64'' \<mapsto> ''e30='', ''GOOGLE_CREDS_FILE'' \<mapsto> ''creds/key.json'']"
      "''e30=''" "\<lambda>b. Some ''{}''" "''{}''" "''creds/key.json''" Map.empty]
  by simp

section \<open>Job Log lookup: proofs\<close>

text \<open>
  Claim C4 does not hold of the code when the column headed \<^verbatim>\<open>Ewing Board Item ID\<close> is the
  first column: its index 0 is false for \<^verbatim>\<open>or\<close>, so the work-item id is taken from the
  \<^verbatim>\<open>Monday ID\<close> column when there is one and is empty otherwise.
\<close>

theorem joblog_first_column_work_item:
  "map_option monday_item_id
      (find_job_in_joblog
         [[''Ewing Board Item ID'', ''Job #'', ''Job Name''], [''987'', ''12345'', ''Acme'']]
         ''12345'') = Some ''''
   \<and> map_option monday_item_id
      (find_job_in_joblog
         [[''Ewing Board Item ID'', ''Job #'', ''Monday ID''], [''987'', ''12345'', ''654'']]
         ''12345'') = Some ''654''
   \<and> map_option monday_item_id
      (find_job_in_joblog
         [[''Job #'', ''Ewing Board Item ID'', ''Monday ID''], [''12345'', ''987'', ''654'']]
         ''12345'') = Some ''987''"
  by (simp add: find_job_in_joblog_def header_index_def enumerate_eq_zip py_or_def
      cell_or_empty_def strip_def isspace_def upt_rec)


section \<open>Question Log: proofs\<close>

lemma scan_unanswered_None:
  "scan_unanswered vals job n = None \<longleftrightarrow> (\<forall>i. 1 \<le> i \<and> i \<le> n \<longrightarrow> \<not> unanswered job (vals ! i))"
proof (induction n)
  case 0
  then show ?case by simp
next
  case (Suc n)
  have "(\<forall>i. 1 \<le> i \<and> i \<le> Suc n \<longrightarrow> \<not> unanswered job (vals ! i))
      \<longleftrightarrow> \<not> unanswered job (vals ! Suc n) \<and> (\<forall>i. 1 \<le> i \<and> i \<le> n \<longrightarrow> \<not> unanswered job (vals ! i))"
    by (metis le_Suc_eq le_SucI Suc_le_mono le0 One_nat_def)
  with Suc show ?case by simp
qed

lemma scan_unanswered_Some:
  "scan_unanswered vals job n = Some r \<longleftrightarrow> (\<exists>i. r = i + 1 \<and> bottom_unanswered vals job n i)"
proof (induction n)
  case 0
  then show ?case by (simp add: bottom_unanswered_def)
next
  case (Suc n)
  show ?case
  proof (cases "unanswered job (vals ! Suc n)")
    case True
    have "bottom_unanswered vals job (Suc n) i \<longleftrightarrow> i = Suc n" for i
      using True unfolding bottom_unanswered_def
      by (metis Suc_le_eq le_antisym le_refl not_less_eq_eq le_SucE One_nat_def le_add1 plus_1_eq_Suc)
    with True show ?thesis by auto
  next
    case False
    have "bottom_unanswered vals job (Suc n) i \<longleftrightarrow> bottom_unanswered vals job n i" for i
      using False unfolding bottom_unanswered_def
      by (metis le_Suc_eq)
    with False Suc show ?thesis by simp
  qed
qed

lemma cell_put_cells:
  "cell (put_cells c vs row) j = (if c \<le> j \<and> j < c + length vs then vs ! (j - c) else cell row j)"
proof (induction vs arbitrary: c row)
  case Nil
  then show ?case by auto
next
  case (Cons v vs)
  let ?row = "(row @ replicate (Suc c - length row) [])[c := v]"
  have c: "cell ?row j = (if j = c then v else cell row j)"
    by (auto simp: cell_def nth_list_update nth_append)
  show ?case
  proof (cases "Suc c \<le> j \<and> j < Suc c + length vs")
    case True
    then have "j - c = Suc (j - Suc c)" by arith
    with True Cons.IH [of "Suc c" ?row] show ?thesis by simp
  next
    case False
    with Cons.IH [of "Suc c" ?row] c show ?thesis
      by (auto simp: not_less_eq_eq)
  qed
qed


lemma length_put_cells: "length (put_cells c vs row) \<ge> length row"
proof (induction vs arbitrary: c row)
  case Nil
  then show ?case by simp
next
  case (Cons v vs)
  have "length row \<le> length ((row @ replicate (Suc c - length row) [])[c := v])" by simp
  also note Cons.IH
  finally show ?case by simp
qed

lemma put_rows_single:
  "r < length sh \<Longrightarrow> put_rows r c [vs] sh = sh[r := put_cells c vs (sh ! r)]"
  by simp


lemma update_row_effect:
  assumes "i < length sh" and "1 \<le> i"
  shows "apply_request sh (ValuesUpdate tab c (i + 1) c' (i + 1) [vs]) = sh[i := put_cells (col_index c) vs (sh ! i)]"
  using assms by simp

lemma response_update_nonempty:
  assumes "vals \<noteq> []"
  shows "(bottom_unanswered vals jn (length vals - 1) i \<longrightarrow>
            fst (update_sheet_response_for_job (Inr vals) we jn d t f b)
              = [ValuesUpdate ''QuestionsLog'' CHR ''G'' (i + 1) CHR ''J'' (i + 1) [[d, t, f, b]]]
            \<and> length (apply_request vals
                 (ValuesUpdate ''QuestionsLog'' CHR ''G'' (i + 1) CHR ''J'' (i + 1) [[d, t, f, b]]))
               = length vals
            \<and> (\<forall>r. r \<noteq> i \<longrightarrow>
                 apply_request vals
                   (ValuesUpdate ''QuestionsLog'' CHR ''G'' (i + 1) CHR ''J'' (i + 1) [[d, t, f, b]]) ! r
                 = vals ! r)
            \<and> (\<forall>j. cell (apply_request vals
                   (ValuesUpdate ''QuestionsLog'' CHR ''G'' (i + 1) CHR ''J'' (i + 1) [[d, t, f, b]]) ! i) j
                 = (if j = 6 then d else if j = 7 then t else if j = 8 then f else if j = 9 then b
                    else cell (vals ! i) j)))
     \<and> ((\<forall>i. 1 \<le> i \<and> i \<le> length vals - 1 \<longrightarrow> \<not> unanswered jn (vals ! i)) \<longrightarrow>
            fst (update_sheet_response_for_job (Inr vals) we jn d t f b)
              = [ValuesAppend ''QuestionsLog!A:K'' [[jn, [], [], [], [], [], d, t, f, b, []]]]
            \<and> apply_request vals
                 (ValuesAppend ''QuestionsLog!A:K'' [[jn, [], [], [], [], [], d, t, f, b, []]])
               = vals @ [[jn, [], [], [], [], [], d, t, f, b, []]])"
proof (intro conjI impI)
  assume bu: "bottom_unanswered vals jn (length vals - 1) i"
  then have s: "scan_unanswered vals jn (length vals - 1) = Some (i + 1)"
    by (auto simp: scan_unanswered_Some)
  from bu assms have i: "i < length vals" "1 \<le> i"
    by (auto simp: bottom_unanswered_def)
  let ?req = "ValuesUpdate ''QuestionsLog'' CHR ''G'' (i + 1) CHR ''J'' (i + 1) [[d, t, f, b]]"
  have e: "apply_request vals ?req = vals[i := put_cells (col_index CHR ''G'') [d, t, f, b] (vals ! i)]"
    using i by (rule update_row_effect)
  have g: "col_index CHR ''G'' = 6" by (simp add: col_index_def)
  from s assms show "fst (update_sheet_response_for_job (Inr vals) we jn d t f b) = [?req]"
    by (simp add: update_sheet_response_for_job_def)
  show "length (apply_request vals ?req) = length vals"
    unfolding e by simp
  show "\<forall>r. r \<noteq> i \<longrightarrow> apply_request vals ?req ! r = vals ! r"
    unfolding e by simp
  have "apply_request vals ?req ! i = put_cells 6 [d, t, f, b] (vals ! i)"
    unfolding e g using i by (simp del: put_cells.simps)
  then show "\<forall>j. cell (apply_request vals ?req ! i) j
      = (if j = 6 then d else if j = 7 then t else if j = 8 then f else if j = 9 then b
         else cell (vals ! i) j)"
    by (simp add: cell_put_cells del: put_cells.simps)
next
  assume "\<forall>i. 1 \<le> i \<and> i \<le> length vals - 1 \<longrightarrow> \<not> unanswered jn (vals ! i)"
  then have "scan_unanswered vals jn (length vals - 1) = None"
    by (simp add: scan_unanswered_None)
  with assms show "fst (update_sheet_response_for_job (Inr vals) we jn d t f b)
      = [ValuesAppend ''QuestionsLog!A:K'' [[jn, [], [], [], [], [], d, t, f, b, []]]]"
    by (simp add: update_sheet_response_for_job_def)
  show "apply_request vals
         (ValuesAppend ''QuestionsLog!A:K'' [[jn, [], [], [], [], [], d, t, f, b, []]])
       = vals @ [[jn, [], [], [], [], [], d, t, f, b, []]]"
    by simp
qed

text \<open>
  Claim C5, as amended. When the read of the Question Log returns no row at all, the operation
  issues no request and logs nothing, whatever the job and the response. When the read returns
  at least one row: if \<open>i\<close> is the bottom-most row below the header whose column A, stripped,
  is the job and whose column G, stripped, is empty, the operation issues one update of
  \<^verbatim>\<open>G:J\<close> of that row with the response date, time, responder and body, and on the sheet that
  update changes the cells G, H, I, J of that row and nothing else; if there is no such row,
  it issues one append of a row with the job in column A, the four response values in G--J
  and B--F and K blank.
\<close>

theorem response_update_with_fallback:
  "update_sheet_response_for_job (Inr []) we jn d t f b = ([], [])
   \<and> (vals \<noteq> [] \<longrightarrow>
     (bottom_unanswered vals jn (length vals - 1) i \<longrightarrow>
                 fst (update_sheet_response_for_job (Inr vals) we jn d t f b)
                   = [ValuesUpdate ''QuestionsLog'' CHR ''G'' (i + 1) CHR ''J'' (i + 1) [[d, t, f, b]]]
                 \<and> length (apply_request vals
                      (ValuesUpdate ''QuestionsLog'' CHR ''G'' (i + 1) CHR ''J'' (i + 1) [[d, t, f, b]]))
                    = length vals
                 \<and> (\<forall>r. r \<noteq> i \<longrightarrow>
                      apply_request vals
                        (ValuesUpdate ''QuestionsLog'' CHR ''G'' (i + 1) CHR ''J'' (i + 1) [[d, t, f, b]]) ! r
                      = vals ! r)
                 \<and> (\<forall>j. cell (apply_request vals
                        (ValuesUpdate ''QuestionsLog'' CHR ''G'' (i + 1) CHR ''J'' (i + 1) [[d, t, f, b]]) ! i) j
                      = (if j = 6 then d else if j = 7 then t else if j = 8 then f else if j = 9 then b
                         else cell (vals ! i) j)))
          \<and> ((\<forall>i. 1 \<le> i \<and> i \<le> length vals - 1 \<longrightarrow> \<not> unanswered jn (vals ! i)) \<longrightarrow>
                 fst (update_sheet_response_for_job (Inr vals) we jn d t f b)
                   = [ValuesAppend ''QuestionsLog!A:K'' [[jn, [], [], [], [], [], d, t, f, b, []]]]
                 \<and> apply_request vals
                      (ValuesAppend ''QuestionsLog!A:K'' [[jn, [], [], [], [], [], d, t, f, b, []]])
                    = vals @ [[jn, [], [], [], [], [], d, t, f, b, []]]))"
  (is "?E \<and> (?N \<longrightarrow> ?S)")
proof (rule conjI)
  show ?E
    by (simp add: update_sheet_response_for_job_def)
  show "?N \<longrightarrow> ?S"
    by (rule impI) (rule response_update_nonempty)
qed

text \<open>
  Claim C5 as stated fails when the read returns no row at all (a sheet without even a
  header): there is no unanswered row, and the operation returns at its guard without
  appending anything, so the response is not recorded.
\<close>

theorem response_dropped_on_empty_sheet:
  "update_sheet_response_for_job (Inr []) None ''12345'' ''2024-05-01'' ''10:00:00'' ''Pat'' ''Yes''
     = ([], [])"
  by (simp add: update_sheet_response_for_job_def)

text \<open>
  Claim C2 does not hold of the code. For the bottom-most unanswered row the operation issues
  one update of the range \<^verbatim>\<open>M:O\<close> of that row with the two values client timestamp and
  client channel. The values fill the range from its left end: the timestamp lands in
  column M (index 12), the channel in column N (index 13), the internal channel column, and
  column O (index 14) keeps what it had.
\<close>

theorem client_thread_info_columns:
  assumes "bottom_unanswered vals jn (length vals - 1) i"
  shows "fst (update_client_thread_info (Inr vals) we jn client_ts client_channel)
           = [ValuesUpdate ''QuestionsLog'' CHR ''M'' (i + 1) CHR ''O'' (i + 1) [[client_ts, client_channel]]]
    \<and> cell (apply_request vals
         (ValuesUpdate ''QuestionsLog'' CHR ''M'' (i + 1) CHR ''O'' (i + 1) [[client_ts, client_channel]]) ! i) 12
        = client_ts
    \<and> cell (apply_request vals
         (ValuesUpdate ''QuestionsLog'' CHR ''M'' (i + 1) CHR ''O'' (i + 1) [[client_ts, client_channel]]) ! i) 13
        = client_channel
    \<and> cell (apply_request vals
         (ValuesUpdate ''QuestionsLog'' CHR ''M'' (i + 1) CHR ''O'' (i + 1) [[client_ts, client_channel]]) ! i) 14
        = cell (vals ! i) 14"
proof -
  from assms have s: "scan_unanswered vals jn (length vals - 1) = Some (i + 1)"
    by (auto simp: scan_unanswered_Some)
  from assms have i: "i < length vals" "1 \<le> i"
    by (auto simp: bottom_unanswered_def)
  then have ne: "vals \<noteq> []" by auto
  let ?req = "ValuesUpdate ''QuestionsLog'' CHR ''M'' (i + 1) CHR ''O'' (i + 1) [[client_ts, client_channel]]"
  have e: "apply_request vals ?req = vals[i := put_cells (col_index CHR ''M'') [client_ts, client_channel] (vals ! i)]"
    using i by (rule update_row_effect)
  have m: "col_index CHR ''M'' = 12" by (simp add: col_index_def)
  have r: "apply_request vals ?req ! i = put_cells 12 [client_ts, client_channel] (vals ! i)"
    unfolding e m using i by (simp del: put_cells.simps)
  from s ne have "fst (update_client_thread_info (Inr vals) we jn client_ts client_channel) = [?req]"
    by (simp add: update_client_thread_info_def)
  then show ?thesis
    unfolding r by (simp add: cell_put_cells del: put_cells.simps)
qed


lemma sample_scan:
  "scan_unanswered [sample_header, sample_open_row, sample_answered_row] ''12345'' 2 = Some 2"
  "scan_unanswered [sample_header, sample_open_row] ''12345'' 1 = Some 2"
  by (simp_all add: eval_nat_numeral unanswered_def cell_strip_def strip_def isspace_def
      sample_open_row_def sample_answered_row_def)

lemma one_plus_one: "(1::nat) + 1 = 2"
  by simp

lemma sample_bottom3:
  "bottom_unanswered [sample_header, sample_open_row, sample_answered_row] ''12345'' 2 1"
proof -
  from sample_scan(1) obtain i where i: "2 = i + 1"
    and b: "bottom_unanswered [sample_header, sample_open_row, sample_answered_row] ''12345'' 2 i"
    unfolding scan_unanswered_Some by blast
  from i have "i = 1" by simp
  with b show ?thesis by simp
qed

lemma sample_bottom2:
  "bottom_unanswered [sample_header, sample_open_row] ''12345'' 1 1"
proof -
  from sample_scan(2) obtain i where i: "2 = i + 1"
    and b: "bottom_unanswered [sample_header, sample_open_row] ''12345'' 1 i"
    unfolding scan_unanswered_Some by blast
  from i have "i = 1" by simp
  with b show ?thesis by simp
qed

text \<open>The hypotheses of the theorem on C5 hold on the sample log (update of row 2) and on a
  log with a header only (append).\<close>

theorem response_update_with_fallback_witness:
  "bottom_unanswered [sample_header, sample_open_row, sample_answered_row] ''12345''
      (length [sample_header, sample_open_row, sample_answered_row] - 1) 1
   \<and> fst (update_sheet_response_for_job (Inr [sample_header, sample_open_row, sample_answered_row])
          None ''12345'' ''2024-05-04'' ''10:00:00'' ''Pat'' ''Yes'')
      = [ValuesUpdate ''QuestionsLog'' CHR ''G'' 2 CHR ''J'' 2 [[''2024-05-04'', ''10:00:00'', ''Pat'', ''Yes'']]]
   \<and> fst (update_sheet_response_for_job (Inr [sample_header])
          None ''12345'' ''2024-05-04'' ''10:00:00'' ''Pat'' ''Yes'')
      = [ValuesAppend ''QuestionsLog!A:K''
           [[''12345'', [], [], [], [], [], ''2024-05-04'', ''10:00:00'', ''Pat'', ''Yes'', []]]]"
proof -
  have b: "bottom_unanswered [sample_header, sample_open_row, sample_answered_row] ''12345''
      (length [sample_header, sample_open_row, sample_answered_row] - 1) 1"
  proof -
    have "length [sample_header, sample_open_row, sample_answered_row] - 1 = 2" by simp
    then show ?thesis by (simp only: sample_bottom3)
  qed
  have n: "\<forall>i. 1 \<le> i \<and> i \<le> length [sample_header] - 1 \<longrightarrow> \<not> unanswered ''12345'' ([sample_header] ! i)"
    by simp
  have ne3: "[sample_header, sample_open_row, sample_answered_row] \<noteq> []"
    and ne1: "[sample_header] \<noteq> []"
    by simp_all
  from response_update_with_fallback [where vals = "[sample_header, sample_open_row, sample_answered_row]"
      and jn = "''12345''" and i = 1 and we = None and d = "''2024-05-04''" and t = "''10:00:00''"
      and f = "''Pat''" and b = "''Yes''", unfolded one_plus_one] ne3 b
  have u: "fst (update_sheet_response_for_job (Inr [sample_header, sample_open_row, sample_answered_row])
          None ''12345'' ''2024-05-04'' ''10:00:00'' ''Pat'' ''Yes'')
      = [ValuesUpdate ''QuestionsLog'' CHR ''G'' 2 CHR ''J'' 2 [[''2024-05-04'', ''10:00:00'', ''Pat'', ''Yes'']]]"
    by simp
  from response_update_with_fallback [where vals = "[sample_header]"
      and jn = "''12345''" and we = None and d = "''2024-05-04''" and t = "''10:00:00''"
      and f = "''Pat''" and b = "''Yes''"] ne1 n
  have a: "fst (update_sheet_response_for_job (Inr [sample_header])
          None ''12345'' ''2024-05-04'' ''10:00:00'' ''Pat'' ''Yes'')
      = [ValuesAppend ''QuestionsLog!A:K''
           [[''12345'', [], [], [], [], [], ''2024-05-04'', ''10:00:00'', ''Pat'', ''Yes'', []]]]"
    by simp
  from b u a show ?thesis by blast
qed

text \<open>On the sample log: the internal channel \<^verbatim>\<open>CINT\<close> in column N of row 2 is replaced by
  the client channel, and column O stays empty.\<close>

theorem client_thread_info_columns_witness:
  "bottom_unanswered [sample_header, sample_open_row] ''12345''
      (length [sample_header, sample_open_row] - 1) 1
   \<and> cell ([sample_header, sample_open_row] ! 1) 13 = ''CINT''
   \<and> fst (update_client_thread_info (Inr [sample_header, sample_open_row]) None
          ''12345'' ''222.2'' ''CCLI'')
      = [ValuesUpdate ''QuestionsLog'' CHR ''M'' 2 CHR ''O'' 2 [[''222.2'', ''CCLI'']]]
   \<and> cell (apply_request [sample_header, sample_open_row]
         (ValuesUpdate ''QuestionsLog'' CHR ''M'' 2 CHR ''O'' 2 [[''222.2'', ''CCLI'']]) ! 1) 13
      = ''CCLI''
   \<and> cell (apply_request [sample_header, sample_open_row]
         (ValuesUpdate ''QuestionsLog'' CHR ''M'' 2 CHR ''O'' 2 [[''222.2'', ''CCLI'']]) ! 1) 14
      = []"
proof -
  have b: "bottom_unanswered [sample_header, sample_open_row] ''12345''
      (length [sample_header, sample_open_row] - 1) 1"
  proof -
    have "length [sample_header, sample_open_row] - 1 = 1" by simp
    then show ?thesis by (simp only: sample_bottom2)
  qed
  have c: "cell ([sample_header, sample_open_row] ! 1) 13 = ''CINT''"
    and o: "cell ([sample_header, sample_open_row] ! 1) 14 = []"
    by (simp_all add: cell_def sample_open_row_def)
  from client_thread_info_columns [OF b, of None "''222.2''" "''CCLI''", unfolded one_plus_one] o
  have "fst (update_client_thread_info (Inr [sample_header, sample_open_row]) None
          ''12345'' ''222.2'' ''CCLI'')
      = [ValuesUpdate ''QuestionsLog'' CHR ''M'' 2 CHR ''O'' 2 [[''222.2'', ''CCLI'']]]
   \<and> cell (apply_request [sample_header, sample_open_row]
         (ValuesUpdate ''QuestionsLog'' CHR ''M'' 2 CHR ''O'' 2 [[''222.2'', ''CCLI'']]) ! 1) 13
      = ''CCLI''
   \<and> cell (apply_request [sample_header, sample_open_row]
         (ValuesUpdate ''QuestionsLog'' CHR ''M'' 2 CHR ''O'' 2 [[''222.2'', ''CCLI'']]) ! 1) 14
      = []"
    by (simp del: apply_request.simps)
  with b c show ?thesis by blast
qed


section \<open>Document revision formatter: proofs\<close>

lemma length_divider_line: "length divider_line = 72"
  by (simp add: divider_line_def)

lemma digit_char_0: "digit_char 0 = CHR ''0''"
proof -
  from char_of_char [of "CHR ''0''", where ?'a = nat] have "char_of (48 :: nat) = CHR ''0''"
    by simp
  then show ?thesis by (simp add: digit_char_def)
qed

lemma dec_small: "n < 10 \<Longrightarrow> dec n = [digit_char n]"
  by (subst dec.simps) (simp add: digit_char_def)

lemma dec_large: "10 \<le> n \<Longrightarrow> dec n = dec (n div 10) @ [digit_char (n mod 10)]"
  by (subst dec.simps) (simp add: digit_char_def)

lemma pad2_two_digits:
  assumes "n < 100"
  shows "pad2 n = [digit_char (n div 10), digit_char (n mod 10)]"
proof (cases "n < 10")
  case True
  then have "pad2 n = [CHR ''0'', digit_char n]"
    by (simp add: pad2_def dec_small)
  with True show ?thesis by (simp add: digit_char_0)
next
  case False
  with assms have "10 \<le> n" and "n div 10 < 10" by simp_all
  then have "dec n = [digit_char (n div 10), digit_char (n mod 10)]"
    by (simp add: dec_large dec_small)
  with False show ?thesis by (simp add: pad2_def)
qed

lemma dec_four_digits:
  assumes "1000 \<le> n" and "n \<le> 9999"
  shows "dec n = [digit_char (n div 1000), digit_char (n div 100 mod 10),
                  digit_char (n div 10 mod 10), digit_char (n mod 10)]"
proof -
  have e2: "n div 10 div 10 = n div 100" and e3: "n div 100 div 10 = n div 1000"
    by (simp_all add: div_mult2_eq [symmetric])
  from assms have "10 \<le> n" by simp
  then have d1: "dec n = dec (n div 10) @ [digit_char (n mod 10)]"
    by (rule dec_large)
  from assms have "10 \<le> n div 10" by simp
  then have "dec (n div 10) = dec (n div 10 div 10) @ [digit_char (n div 10 mod 10)]"
    by (rule dec_large)
  then have d2: "dec (n div 10) = dec (n div 100) @ [digit_char (n div 10 mod 10)]"
    unfolding e2 .
  from assms have "10 \<le> n div 100" by simp
  then have "dec (n div 100) = dec (n div 100 div 10) @ [digit_char (n div 100 mod 10)]"
    by (rule dec_large)
  then have d3: "dec (n div 100) = dec (n div 1000) @ [digit_char (n div 100 mod 10)]"
    unfolding e3 .
  from assms have "n div 1000 < 10" by simp
  then have d4: "dec (n div 1000) = [digit_char (n div 1000)]"
    by (rule dec_small)
  show ?thesis
    unfolding d1 d2 d3 d4 by simp
qed

lemma strftime_format:
  assumes "valid_date d"
  shows "strftime_mdY d = MM_DD_YYYY d"
proof -
  from assms have "month d < 100" and "day d < 100" and "1000 \<le> year d" and "year d \<le> 9999"
    by (simp_all add: valid_date_def)
  then show ?thesis
    unfolding strftime_mdY_def MM_DD_YYYY_def
    by (simp only: pad2_two_digits dec_four_digits) simp
qed

lemma utf16_len_append: "utf16_len (xs @ ys) = utf16_len xs + utf16_len ys"
  by (simp add: utf16_len_def)

lemma utf16_len_extra: "utf16_len s = length s + length (filter (\<lambda>c. \<not> c < 65536) s)"
  by (induction s) (simp_all add: utf16_len_def utf16_units_def)

lemma utf16_len_bmp: "utf16_len s = length s \<longleftrightarrow> list_all (\<lambda>c. c < 65536) s"
  by (simp add: utf16_len_extra filter_empty_conv list_all_iff)

lemma utf16_len_ge: "length s \<le> utf16_len s"
  by (simp add: utf16_len_extra)

lemma utf16_len_ustr_of: "utf16_len (ustr_of s) = length s"
proof -
  have "(of_char c :: nat) < 65536" for c
  proof -
    have "(of_char c :: nat) < 256"
      by (metis of_char_mod_256 mod_less_divisor zero_less_numeral)
    then show ?thesis by (rule less_trans) simp
  qed
  then have "list_all (\<lambda>c. c < 65536) (ustr_of s)"
    by (simp add: ustr_of_def list_all_iff)
  then have "utf16_len (ustr_of s) = length (ustr_of s)"
    by (simp only: utf16_len_bmp)
  then show ?thesis by (simp add: ustr_of_def)
qed

lemma utf16_len_divider: "utf16_len divider_line = 72"
  by (simp add: utf16_len_extra divider_line_def)

lemma length_ustr_of: "length (ustr_of s) = length s"
  by (simp add: ustr_of_def)

lemma utf16_len_Cons: "utf16_len (c # cs) = utf16_units c + utf16_len cs"
  by (simp add: utf16_len_def)

lemma utf16_len_header: "utf16_len (header_text n today) = length (header_text n today)"
  by (simp add: header_text_def utf16_len_append utf16_len_ustr_of utf16_len_Cons utf16_units_def
      length_ustr_of)


lemma of_char_digit_char: "n < 10 \<Longrightarrow> (of_char (digit_char n) :: nat) = 48 + n"
  by (simp add: digit_char_def)

lemma dec_decimal: "decimal_value (dec n) = n \<and> list_all isdigit (dec n)"
proof (induction n rule: dec.induct)
  case (1 n)
  show ?case
  proof (cases "n < 10")
    case True
    then show ?thesis
      by (simp add: dec_small decimal_value_def of_char_digit_char isdigit_def)
  next
    case False
    then have l: "10 \<le> n" by simp
    have m: "n mod 10 < 10" by simp
    from "1.IH" [OF False] have ih: "decimal_value (dec (n div 10)) = n div 10"
      "list_all isdigit (dec (n div 10))" by simp_all
    have "decimal_value (dec n) = 10 * decimal_value (dec (n div 10)) + n mod 10"
      unfolding dec_large [OF l] decimal_value_def
      by (simp add: of_char_digit_char [OF m])
    moreover from m have "n mod 10 \<le> 9" by arith
    then have "isdigit (digit_char (n mod 10))"
      by (simp add: isdigit_def of_char_digit_char [OF m])
    ultimately show ?thesis
      using ih by (simp add: dec_large [OF l])
  qed
qed

lemma str_int_decimal:
  "0 \<le> n \<Longrightarrow> decimal_value (str_int n) = nat n \<and> list_all isdigit (str_int n)"
  by (simp add: str_int_def dec_decimal)


lemma utf16_len_before_message:
  "utf16_len (before_message n today) = 78 + length (header_text n today)"
  by (simp add: before_message_def utf16_len_append utf16_len_Cons utf16_units_def
      utf16_len_divider utf16_len_header) (simp add: utf16_len_def)

text \<open>
  Claim C8 does not hold of the code for every triggering text. For a document whose content
  ends at \<open>end_index = e > 1\<close> the operation hands over one batch of five requests, in this
  order: a style update of \<open>[1, e)\<close> to italic and grey (0.5, 0.5, 0.5); the insertion at
  \<open>e\<close> of two newlines, 72 \<^verbatim>\<open>=\<close>, two newlines, the header \<^verbatim>\<open>REVISION #\<close> with the number in
  decimal notation, space, en dash, space and the date as \<^verbatim>\<open>MM/DD/YYYY\<close>, two newlines, the
  triggering text, two newlines; a style update to bold; one to bold, non-italic, black; one
  to non-italic, black. The range of the third request is the index range the divider takes
  in the document, the range of the fourth is the one the header takes, and the range of the
  fifth starts where the triggering text starts. Its end is computed from \<^verbatim>\<open>len\<close>, which
  counts characters, while the document counts UTF-16 code units: the end is the end of the
  triggering text exactly when every character of the text is at most U+FFFF, and falls
  short of it otherwise.
\<close>

theorem revision_divider_batch:
  assumes "doc_end_index body_content = e" and "e > 1"
  shows "append_revision_divider body_content trig n today =
      [UpdateTextStyle 1 e
         \<lparr>bold = None, italic = Some True,
          foregroundColor = Some \<lparr>red = 1 / 2, green = 1 / 2, blue = 1 / 2\<rparr>\<rparr>
         ''italic,foregroundColor'',
       InsertText e (text_to_insert trig n today),
       UpdateTextStyle (e + 2) (e + 74)
         \<lparr>bold = Some True, italic = None, foregroundColor = None\<rparr> ''bold'',
       UpdateTextStyle (e + 76) (e + 76 + int (length (header_text n today)))
         \<lparr>bold = Some True, italic = Some False,
          foregroundColor = Some \<lparr>red = 0, green = 0, blue = 0\<rparr>\<rparr>
         ''bold,italic,foregroundColor'',
       UpdateTextStyle (e + 78 + int (length (header_text n today)))
         (e + 78 + int (length (header_text n today)) + int (length trig))
         \<lparr>bold = None, italic = Some False,
          foregroundColor = Some \<lparr>red = 0, green = 0, blue = 0\<rparr>\<rparr>
         ''italic,foregroundColor'']
    \<and> text_to_insert trig n today =
        [10, 10] @ replicate 72 61 @ [10, 10]
          @ (ustr_of ''REVISION #'' @ ustr_of (str_int n) @ [32, 8211, 32] @ ustr_of (strftime_mdY today))
          @ [10, 10] @ trig @ [10, 10]
    \<and> text_to_insert trig n today = before_message n today @ trig @ [10, 10]
    \<and> (0 \<le> n \<longrightarrow> decimal_value (str_int n) = nat n \<and> list_all isdigit (str_int n))
    \<and> (valid_date today \<longrightarrow> strftime_mdY today = MM_DD_YYYY today)
    \<and> (e + 2, e + 74) = occupied e [10, 10] divider_line
    \<and> (e + 76, e + 76 + int (length (header_text n today)))
        = occupied e ([10, 10] @ divider_line @ [10, 10]) (header_text n today)
    \<and> e + 78 + int (length (header_text n today)) = fst (occupied e (before_message n today) trig)
    \<and> (e + 78 + int (length (header_text n today)) + int (length trig)
          = snd (occupied e (before_message n today) trig)
        \<longleftrightarrow> list_all (\<lambda>c. c < 65536) trig)
    \<and> e + 78 + int (length (header_text n today)) + int (length trig)
        \<le> snd (occupied e (before_message n today) trig)"
proof (intro conjI impI)
  show "append_revision_divider body_content trig n today = [
       UpdateTextStyle 1 e
         \<lparr>bold = None, italic = Some True,
          foregroundColor = Some \<lparr>red = 1 / 2, green = 1 / 2, blue = 1 / 2\<rparr>\<rparr>
         ''italic,foregroundColor'',
       InsertText e (text_to_insert trig n today),
       UpdateTextStyle (e + 2) (e + 74)
         \<lparr>bold = Some True, italic = None, foregroundColor = None\<rparr> ''bold'',
       UpdateTextStyle (e + 76) (e + 76 + int (length (header_text n today)))
         \<lparr>bold = Some True, italic = Some False,
          foregroundColor = Some \<lparr>red = 0, green = 0, blue = 0\<rparr>\<rparr>
         ''bold,italic,foregroundColor'',
       UpdateTextStyle (e + 78 + int (length (header_text n today)))
         (e + 78 + int (length (header_text n today)) + int (length trig))
         \<lparr>bold = None, italic = Some False,
          foregroundColor = Some \<lparr>red = 0, green = 0, blue = 0\<rparr>\<rparr>
         ''italic,foregroundColor'']"
    using assms by (simp add: append_revision_divider_def Let_def length_divider_line)
  have eq: "of_char CHR ''='' = (61 :: nat)" by simp
  show "text_to_insert trig n today =
        [10, 10] @ replicate 72 61 @ [10, 10]
          @ (ustr_of ''REVISION #'' @ ustr_of (str_int n) @ [32, 8211, 32] @ ustr_of (strftime_mdY today))
          @ [10, 10] @ trig @ [10, 10]"
    by (simp add: text_to_insert_def divider_line_def header_text_def eq)
  show "text_to_insert trig n today = before_message n today @ trig @ [10, 10]"
    by (simp add: text_to_insert_def before_message_def)
  show "decimal_value (str_int n) = nat n" and "list_all isdigit (str_int n)" if "0 \<le> n"
    using str_int_decimal [OF that] by simp_all
  show "strftime_mdY today = MM_DD_YYYY today" if "valid_date today"
    using that by (rule strftime_format)
  show "(e + 2, e + 74) = occupied e [10, 10] divider_line"
    by (simp add: occupied_def utf16_len_divider utf16_len_Cons utf16_units_def)
      (simp add: utf16_len_def)
  show "(e + 76, e + 76 + int (length (header_text n today)))
        = occupied e ([10, 10] @ divider_line @ [10, 10]) (header_text n today)"
    by (simp add: occupied_def utf16_len_append utf16_len_divider utf16_len_header utf16_len_Cons
        utf16_units_def) (simp add: utf16_len_def)
  show "e + 78 + int (length (header_text n today)) = fst (occupied e (before_message n today) trig)"
    by (simp add: occupied_def utf16_len_before_message)
  have "e + 78 + int (length (header_text n today)) + int (length trig)
          = snd (occupied e (before_message n today) trig)
        \<longleftrightarrow> utf16_len trig = length trig"
    by (auto simp: occupied_def utf16_len_before_message)
  then show "e + 78 + int (length (header_text n today)) + int (length trig)
          = snd (occupied e (before_message n today) trig)
        \<longleftrightarrow> list_all (\<lambda>c. c < 65536) trig"
    by (simp only: utf16_len_bmp)
  show "e + 78 + int (length (header_text n today)) + int (length trig)
        \<le> snd (occupied e (before_message n today) trig)"
    using utf16_len_ge [of trig] by (simp add: occupied_def utf16_len_before_message)
qed


lemma sample_header_text:
  "header_text 3 sample_date = ustr_of ''REVISION #3 '' @ [8211] @ ustr_of '' 05/04/2024''"
  by (simp add: header_text_def sample_date_def str_int_def strftime_mdY_def pad2_def ustr_of_def dec.simps)

lemma sample_dates_valid: "valid_date sample_date" "valid_date sample_date2"
  by (simp_all add: valid_date_def sample_date_def sample_date2_def)

lemma sample_formats:
  "MM_DD_YYYY sample_date = ''05/04/2024''" "MM_DD_YYYY sample_date2 = ''12/25/2031''"
  by code_simp+

lemma sample_lengths:
  "length (header_text 3 sample_date) = 24"
  by (simp add: sample_header_text ustr_of_def)

text \<open>On a document ending at index 57, revision 3 of 4 May 2024, with the one-character
  text U+1F44D: the fifth request has the range \<open>[159, 160)\<close> while the text takes
  \<open>[159, 161)\<close>; for \<^verbatim>\<open>Please confirm #12345?\<close> the text takes \<open>[159, 181)\<close>. The two sample
  dates print as \<^verbatim>\<open>05/04/2024\<close> and \<^verbatim>\<open>12/25/2031\<close>.\<close>

theorem revision_divider_batch_witness:
  "doc_end_index [30, 58] = 57 \<and> (57 :: int) > 1
   \<and> valid_date sample_date \<and> strftime_mdY sample_date = ''05/04/2024''
   \<and> valid_date sample_date2 \<and> strftime_mdY sample_date2 = ''12/25/2031''
   \<and> (0 :: int) \<le> 12 \<and> decimal_value (str_int 12) = 12
   \<and> header_text 3 sample_date = ustr_of ''REVISION #3 '' @ [8211] @ ustr_of '' 05/04/2024''
   \<and> append_revision_divider [30, 58] [128077] 3 sample_date =
      [UpdateTextStyle 1 57
         \<lparr>bold = None, italic = Some True,
          foregroundColor = Some \<lparr>red = 1 / 2, green = 1 / 2, blue = 1 / 2\<rparr>\<rparr>
         ''italic,foregroundColor'',
       InsertText 57 (text_to_insert [128077] 3 sample_date),
       UpdateTextStyle 59 131
         \<lparr>bold = Some True, italic = None, foregroundColor = None\<rparr> ''bold'',
       UpdateTextStyle 133 157
         \<lparr>bold = Some True, italic = Some False,
          foregroundColor = Some \<lparr>red = 0, green = 0, blue = 0\<rparr>\<rparr>
         ''bold,italic,foregroundColor'',
       UpdateTextStyle 159 160
         \<lparr>bold = None, italic = Some False,
          foregroundColor = Some \<lparr>red = 0, green = 0, blue = 0\<rparr>\<rparr>
         ''italic,foregroundColor'']
   \<and> occupied 57 (before_message 3 sample_date) [128077] = (159, 161)
   \<and> occupied 57 (before_message 3 sample_date) (ustr_of ''Please confirm #12345?'') = (159, 181)"
proof -
  have e: "doc_end_index [30, 58] = 57" and g: "(57 :: int) > 1"
    by (simp_all add: doc_end_index_def)
  note l = sample_lengths
  note t1 = revision_divider_batch [OF e g, of "[128077]" 3 sample_date, unfolded l]
  note t2 = revision_divider_batch [OF e g, of "ustr_of ''Please confirm #12345?''" 12 sample_date2]
  note t3 = revision_divider_batch [OF e g, of "ustr_of ''Please confirm #12345?''" 3 sample_date,
      unfolded l]
  from t1 sample_dates_valid(1) have "strftime_mdY sample_date = MM_DD_YYYY sample_date"
    by blast
  then have d1: "strftime_mdY sample_date = ''05/04/2024''"
    by (simp only: sample_formats)
  from t2 sample_dates_valid(2) have "strftime_mdY sample_date2 = MM_DD_YYYY sample_date2"
    by blast
  then have d2: "strftime_mdY sample_date2 = ''12/25/2031''"
    by (simp only: sample_formats)
  have n: "(0 :: int) \<le> 12" by simp
  with t2 have v: "decimal_value (str_int 12) = nat 12"
    by blast
  then have v': "decimal_value (str_int 12) = 12" by simp
  from t1 have a: "append_revision_divider [30, 58] [128077] 3 sample_date =
      [UpdateTextStyle 1 57
         \<lparr>bold = None, italic = Some True,
          foregroundColor = Some \<lparr>red = 1 / 2, green = 1 / 2, blue = 1 / 2\<rparr>\<rparr>
         ''italic,foregroundColor'',
       InsertText 57 (text_to_insert [128077] 3 sample_date),
       UpdateTextStyle 59 131
         \<lparr>bold = Some True, italic = None, foregroundColor = None\<rparr> ''bold'',
       UpdateTextStyle 133 157
         \<lparr>bold = Some True, italic = Some False,
          foregroundColor = Some \<lparr>red = 0, green = 0, blue = 0\<rparr>\<rparr>
         ''bold,italic,foregroundColor'',
       UpdateTextStyle 159 160
         \<lparr>bold = None, italic = Some False,
          foregroundColor = Some \<lparr>red = 0, green = 0, blue = 0\<rparr>\<rparr>
         ''italic,foregroundColor'']"
    by simp
  have o1: "occupied 57 (before_message 3 sample_date) [128077] = (159, 161)"
    by (simp add: occupied_def utf16_len_before_message l utf16_len_Cons utf16_units_def)
      (simp add: utf16_len_def)
  have b: "list_all (\<lambda>c. c < 65536) (ustr_of ''Please confirm #12345?'')"
    by (simp add: ustr_of_def)
  from t3 b have "57 + 78 + int 24 + int (length (ustr_of ''Please confirm #12345?''))
      = snd (occupied 57 (before_message 3 sample_date) (ustr_of ''Please confirm #12345?''))"
    and "57 + 78 + int 24 = fst (occupied 57 (before_message 3 sample_date) (ustr_of ''Please confirm #12345?''))"
    by blast+
  then have o2: "occupied 57 (before_message 3 sample_date) (ustr_of ''Please confirm #12345?'') = (159, 181)"
    by (simp add: prod_eq_iff length_ustr_of)
  from e g sample_dates_valid d1 d2 n v' sample_header_text a o1 o2 show ?thesis
    by (intro conjI)
qed

section \<open>Startup rebuild: proofs\<close>

lemma rebuild_row_unbound:
  assumes "PENDING_INTERNAL st = None"
  shows "rebuild_row clk n st r = Inl (NameError ''PENDING_INTERNAL'', st)
    \<or> rebuild_row clk n st r = Inr (st, n)"
  using assms by (simp add: rebuild_row_def Let_def)

lemma rebuild_rows_unbound:
  assumes "PENDING_INTERNAL st = None"
  shows "rebuild_rows clk n st rs = Inl (NameError ''PENDING_INTERNAL'', st)
    \<or> rebuild_rows clk n st rs = Inr (st, n)"
proof (induction rs)
  case Nil
  then show ?case by simp
next
  case (Cons r rs)
  from rebuild_row_unbound [OF assms, of clk n r] Cons show ?case
    by auto
qed

lemma rebuild_unbound:
  assumes "PENDING_INTERNAL st = None"
  shows "fst (rebuild_from_sheet_cache read_result clk st) = st"
proof (cases read_result)
  case (Inl e)
  then show ?thesis by (simp add: rebuild_from_sheet_cache_def)
next
  case (Inr vals)
  show ?thesis
  proof (cases vals)
    case Nil
    with Inr show ?thesis by (simp add: rebuild_from_sheet_cache_def)
  next
    case (Cons header rows)
    from rebuild_rows_unbound [OF assms, of clk 0 "drop (length rows - 200) rows"]
    show ?thesis
      using Inr Cons assms by (auto simp: rebuild_from_sheet_cache_def)
  qed
qed

text \<open>
  Claim C1 does not hold of the code. The module calls \<^verbatim>\<open>rebuild_from_sheet_cache\<close> before it
  binds \<^verbatim>\<open>PENDING_INTERNAL\<close>: the first row with a job number, an internal timestamp and an
  internal channel raises \<^verbatim>\<open>NameError\<close> at the cache assignment, before any relay save, and
  the function's \<^verbatim>\<open>except\<close> logs it; the name is bound to an empty dict afterwards. So
  whatever the sheet holds, both caches are empty after startup. On the sample log with one
  linked row: the error is logged and the lookup of the row's client timestamp finds nothing,
  while the same function run with the name bound would have filled both caches.
\<close>

theorem startup_leaves_caches_empty:
  "fst (startup read_result clk) = \<lparr>PENDING_INTERNAL = Some Map.empty, RELAY = RELAY_MEM\<rparr>
   \<and> startup (Inr [sample_header, sample_linked_row]) clk
       = (\<lparr>PENDING_INTERNAL = Some Map.empty, RELAY = RELAY_MEM\<rparr>,
          [LogError (''rebuild_from_sheet_cache failed: name '' @ [CHR 0x27] @ ''PENDING_INTERNAL''
             @ [CHR 0x27] @ '' is not defined'')])
   \<and> fst (RelayMemory_by_client_thread
         (RELAY (fst (startup (Inr [sample_header, sample_linked_row]) clk))) ''222.2'') = None
   \<and> fst (rebuild_from_sheet_cache (Inr [sample_header, sample_linked_row]) clk
         \<lparr>PENDING_INTERNAL = Some Map.empty, RELAY = RELAY_MEM\<rparr>)
       = \<lparr>PENDING_INTERNAL = Some [''12345'' \<mapsto> (''CINT'', ''111.1'')],
          RELAY = RelayMemory_save_map RELAY_MEM ''12345'' ''CINT'' ''111.1'' ''222.2'' (clk 0) (clk 1)\<rparr>"
proof (intro conjI)
  have "fst (rebuild_from_sheet_cache read_result clk \<lparr>PENDING_INTERNAL = None, RELAY = RELAY_MEM\<rparr>)
      = \<lparr>PENDING_INTERNAL = None, RELAY = RELAY_MEM\<rparr>"
    by (rule rebuild_unbound) simp
  then show "fst (startup read_result clk) = \<lparr>PENDING_INTERNAL = Some Map.empty, RELAY = RELAY_MEM\<rparr>"
    by (cases "rebuild_from_sheet_cache read_result clk \<lparr>PENDING_INTERNAL = None, RELAY = RELAY_MEM\<rparr>")
      (simp add: startup_def)
  have c: "cell_strip sample_linked_row 0 = ''12345''" "cell_strip sample_linked_row 11 = ''111.1''"
    "cell_strip sample_linked_row 12 = ''222.2''" "cell_strip sample_linked_row 13 = ''CINT''"
    by (simp_all add: cell_strip_def sample_linked_row_def strip_def isspace_def)
  show s: "startup (Inr [sample_header, sample_linked_row]) clk
       = (\<lparr>PENDING_INTERNAL = Some Map.empty, RELAY = RELAY_MEM\<rparr>,
          [LogError (''rebuild_from_sheet_cache failed: name '' @ [CHR 0x27] @ ''PENDING_INTERNAL''
             @ [CHR 0x27] @ '' is not defined'')])"
    by (simp add: startup_def rebuild_from_sheet_cache_def rebuild_row_def Let_def c str_of_error_def)
  show "fst (RelayMemory_by_client_thread
         (RELAY (fst (startup (Inr [sample_header, sample_linked_row]) clk))) ''222.2'') = None"
    unfolding s by (simp add: RelayMemory_by_client_thread_def RELAY_MEM_def)
  show "fst (rebuild_from_sheet_cache (Inr [sample_header, sample_linked_row]) clk
         \<lparr>PENDING_INTERNAL = Some Map.empty, RELAY = RELAY_MEM\<rparr>)
       = \<lparr>PENDING_INTERNAL = Some [''12345'' \<mapsto> (''CINT'', ''111.1'')],
          RELAY = RelayMemory_save_map RELAY_MEM ''12345'' ''CINT'' ''111.1'' ''222.2'' (clk 0) (clk 1)\<rparr>"
    by (simp add: rebuild_from_sheet_cache_def rebuild_row_def Let_def c)
qed


section \<open>The message router: proofs\<close>

text \<open>
  Claim C10. For every message event without subtype and bot id, in an internal channel, whose
  stripped text carries a job tag: whatever the external calls give back, the handler ends
  normally and the pending-internal cache maps the extracted job number to this message's
  channel and timestamp. When the append to the Question Log raises, the error is logged and
  the log is unchanged, so the cache has an entry the sheet has no row for; when it succeeds,
  the log has one more row.
\<close>

theorem cache_update_unconditional:
  assumes "ev_channel ev \<in> set (INTERNAL_CHANNEL_IDS cfg)"
    and "\<not> truthy (ev_subtype ev)" and "\<not> truthy (ev_bot_id ev)"
    and "JOB_TAG_RE_search (strip (case ev_text ev of None \<Rightarrow> [] | Some t \<Rightarrow> t)) = Some jn"
    and "PENDING_INTERNAL st = Some p"
  shows "\<exists>qlog' logs.
      message_router cfg oc (Some ev) (st, qlog)
        = Inr (st\<lparr>PENDING_INTERNAL := Some (p(jn \<mapsto> (ev_channel ev, ev_ts ev)))\<rparr>, qlog', [], logs)
      \<and> (\<forall>e. append_error oc = Some e \<longrightarrow>
            qlog' = qlog \<and> LogError (''Sheet append failed: '' @ str_of_error e) \<in> set logs)
      \<and> (append_error oc = None \<longrightarrow> length qlog' = length qlog + 1)"
  using assms
  by (auto simp: message_router_def internal_question_def Let_def commit_def after_write_def
      split: prod.splits sum.splits option.splits)


text \<open>On the sample event with a failing append: the cache gets the entry for job 12345,
  the Question Log still has its header only, and the append error is in the log.\<close>

theorem cache_update_unconditional_witness:
  "ev_channel sample_event \<in> set (INTERNAL_CHANNEL_IDS sample_config)
   \<and> JOB_TAG_RE_search (strip (case ev_text sample_event of None \<Rightarrow> [] | Some t \<Rightarrow> t)) = Some ''12345''
   \<and> append_error failing_append = Some (ServiceError ''HttpError 503'')
   \<and> (\<exists>logs. message_router sample_config failing_append (Some sample_event)
          (\<lparr>PENDING_INTERNAL = Some Map.empty, RELAY = RELAY_MEM\<rparr>, [sample_header])
        = Inr (\<lparr>PENDING_INTERNAL = Some [''12345'' \<mapsto> (''C08HUKW7NDU'', ''111.1'')],
                RELAY = RELAY_MEM\<rparr>, [sample_header], [], logs)
        \<and> LogError ''Sheet append failed: HttpError 503'' \<in> set logs)"
proof -
  have c: "ev_channel sample_event \<in> set (INTERNAL_CHANNEL_IDS sample_config)"
    by (simp add: sample_event_def sample_config_def)
  have s: "\<not> truthy (ev_subtype sample_event)" and b: "\<not> truthy (ev_bot_id sample_event)"
    by (simp_all add: sample_event_def truthy_def)
  have j: "JOB_TAG_RE_search (strip (case ev_text sample_event of None \<Rightarrow> [] | Some t \<Rightarrow> t)) = Some ''12345''"
    by (simp add: sample_event_def strip_def isspace_def JOB_TAG_RE_match_def isdigit_def eval_nat_numeral)
  have p: "PENDING_INTERNAL \<lparr>PENDING_INTERNAL = Some Map.empty, RELAY = RELAY_MEM\<rparr> = Some Map.empty"
    by simp
  have a: "append_error failing_append = Some (ServiceError ''HttpError 503'')"
    by (simp add: failing_append_def)
  from cache_update_unconditional [OF c s b j p, of failing_append "[sample_header]"]
  obtain qlog' logs where r: "message_router sample_config failing_append (Some sample_event)
          (\<lparr>PENDING_INTERNAL = Some Map.empty, RELAY = RELAY_MEM\<rparr>, [sample_header])
        = Inr (\<lparr>PENDING_INTERNAL = Some Map.empty, RELAY = RELAY_MEM\<rparr>
                 \<lparr>PENDING_INTERNAL := Some [''12345'' \<mapsto> (ev_channel sample_event, ev_ts sample_event)]\<rparr>,
               qlog', [], logs)"
    and e: "\<forall>e. append_error failing_append = Some e \<longrightarrow>
            qlog' = [sample_header] \<and> LogError (''Sheet append failed: '' @ str_of_error e) \<in> set logs"
    by blast
  from e a have q: "qlog' = [sample_header]"
    and l: "LogError (''Sheet append failed: '' @ str_of_error (ServiceError ''HttpError 503'')) \<in> set logs"
    by blast+
  from l have l': "LogError ''Sheet append failed: HttpError 503'' \<in> set logs"
    by (simp add: str_of_error_def)
  from r q have "message_router sample_config failing_append (Some sample_event)
          (\<lparr>PENDING_INTERNAL = Some Map.empty, RELAY = RELAY_MEM\<rparr>, [sample_header])
        = Inr (\<lparr>PENDING_INTERNAL = Some [''12345'' \<mapsto> (''C08HUKW7NDU'', ''111.1'')],
                RELAY = RELAY_MEM\<rparr>, [sample_header], [], logs)"
    by (simp add: sample_event_def)
  with c j a l' show ?thesis by blast
qed


end
